theory Spec2Isabelle
  imports Main
begin

section \<open>Strings of the task file\<close>

text \<open>
  The program (\<^verbatim>\<open>src/core.py\<close>) works on Python strings. A \<^typ>\<open>char\<close> stands for
  a character by its code point, so a \<^typ>\<open>string\<close> is a Python string whose code points are
  all below 256. The classes of characters below are those of Python 3 on that range.
  Integers are unbounded, as in Python; converting between an integer and its decimal text
  fails above \<^verbatim>\<open>sys.int_max_str_digits\<close> digits, 4300 unless the interpreter is told
  otherwise. What the program prints is not part of the model.
\<close>

definition isspace :: "char \<Rightarrow> bool" where
  \<comment> \<open>\<^verbatim>\<open>str.isspace\<close>: the characters \<^verbatim>\<open>str.strip()\<close> removes\<close>
  "isspace c \<longleftrightarrow> c \<in> {CHR 0x09, CHR 0x0A, CHR 0x0B, CHR 0x0C, CHR 0x0D,
                         CHR 0x1C, CHR 0x1D, CHR 0x1E, CHR 0x1F, CHR 0x20, CHR 0x85, CHR 0xA0}"

definition int_space :: "char \<Rightarrow> bool" where
  \<comment> \<open>the white space \<^verbatim>\<open>int(s)\<close> skips around the digits; not 0x1C..0x1F\<close>
  "int_space c \<longleftrightarrow> c \<in> {CHR 0x09, CHR 0x0A, CHR 0x0B, CHR 0x0C, CHR 0x0D,
                           CHR 0x20, CHR 0x85, CHR 0xA0}"

definition is_decimal :: "char \<Rightarrow> bool" where
  \<comment> \<open>the digits \<^verbatim>\<open>int(s)\<close> reads: 0 to 9\<close>
  "is_decimal c \<longleftrightarrow> (48::nat) \<le> of_char c \<and> of_char c \<le> (57::nat)"

definition char_isdigit :: "char \<Rightarrow> bool" where
  \<comment> \<open>\<^verbatim>\<open>str.isdigit\<close> on one character: 0 to 9 and the superscripts two, three, one\<close>
  "char_isdigit c \<longleftrightarrow> is_decimal c \<or> c \<in> {CHR 0xB2, CHR 0xB3, CHR 0xB9}"

definition isdigit :: "string \<Rightarrow> bool" where
  "isdigit s \<longleftrightarrow> s \<noteq> [] \<and> list_all char_isdigit s"

definition digit_value :: "char \<Rightarrow> nat" where
  "digit_value c = of_char c - 48"

definition digit_char :: "nat \<Rightarrow> char" where
  "digit_char d = char_of (48 + d)"

definition lstrip :: "string \<Rightarrow> string" where
  "lstrip s = dropWhile isspace s"

definition rstrip :: "string \<Rightarrow> string" where
  "rstrip s = rev (dropWhile isspace (rev s))"

definition strip :: "string \<Rightarrow> string" where
  "strip s = rstrip (lstrip s)"

fun py_split :: "char \<Rightarrow> string \<Rightarrow> string list" where
  \<comment> \<open>\<^verbatim>\<open>s.split(sep)\<close> for a separator of one character\<close>
  "py_split sep [] = [[]]"
| "py_split sep (c # cs) =
     (if c = sep then [] # py_split sep cs
      else (case py_split sep cs of
              [] \<Rightarrow> [[c]]
            | p # ps \<Rightarrow> (c # p) # ps))"

fun py_join :: "string \<Rightarrow> string list \<Rightarrow> string" where
  \<comment> \<open>\<^verbatim>\<open>sep.join(xs)\<close>\<close>
  "py_join sep [] = []"
| "py_join sep [x] = x"
| "py_join sep (x # y # ys) = x @ sep @ py_join sep (y # ys)"

fun read_digits :: "nat \<Rightarrow> string \<Rightarrow> nat option" where
  \<comment> \<open>the rest of a numeral after a digit: digits, single underscores between digits\<close>
  "read_digits acc [] = Some acc"
| "read_digits acc (c # cs) =
     (if is_decimal c then read_digits (10 * acc + digit_value c) cs
      else if c = CHR ''_'' then
        (case cs of
           [] \<Rightarrow> None
         | d # ds \<Rightarrow> if is_decimal d then read_digits (10 * acc + digit_value d) ds else None)
      else None)"

definition read_nat :: "string \<Rightarrow> nat option" where
  "read_nat s =
     (case s of
        [] \<Rightarrow> None
      | c # cs \<Rightarrow> if is_decimal c then read_digits (digit_value c) cs else None)"

definition max_str_digits :: nat where
  \<comment> \<open>the default of \<^verbatim>\<open>sys.int_max_str_digits\<close>\<close>
  "max_str_digits = 4300"

definition py_int :: "string \<Rightarrow> int option" where
  \<comment> \<open>\<^verbatim>\<open>int(s)\<close> in base 10; \<^const>\<open>None\<close> is the ValueError, raised for a text that is
      no numeral and for a numeral of more than \<^const>\<open>max_str_digits\<close> digits (leading zeros
      count, underscores and the sign do not)\<close>
  "py_int s =
     (let t = rev (dropWhile int_space (rev (dropWhile int_space s))) in
      if length (filter is_decimal t) > max_str_digits then None
      else
        case t of
          [] \<Rightarrow> None
        | c # cs \<Rightarrow>
            if c = CHR ''-'' then map_option (\<lambda>n. - int n) (read_nat cs)
            else if c = CHR ''+'' then map_option int (read_nat cs)
            else map_option int (read_nat t))"

fun str_nat :: "nat \<Rightarrow> string" where
  "str_nat n = (if n < 10 then [digit_char n] else str_nat (n div 10) @ [digit_char (n mod 10)])"

declare str_nat.simps [simp del]

definition str_int :: "int \<Rightarrow> string" where
  \<comment> \<open>the decimal text of an integer\<close>
  "str_int i = (if i < 0 then CHR ''-'' # str_nat (nat (- i)) else str_nat (nat i))"

definition decimal_digits :: "int \<Rightarrow> nat" where
  "decimal_digits i = length (str_nat (nat \<bar>i\<bar>))"

definition py_str :: "int \<Rightarrow> string option" where
  \<comment> \<open>\<^verbatim>\<open>str(i)\<close>, as an f-string formats an integer; \<^const>\<open>None\<close> is the ValueError for
      an integer of more than \<^const>\<open>max_str_digits\<close> digits\<close>
  "py_str i = (if decimal_digits i > max_str_digits then None else Some (str_int i))"

fun lower_char :: "char \<Rightarrow> char" where
  "lower_char c =
     (let n = (of_char c :: nat) in
      if (65 \<le> n \<and> n \<le> 90) \<or> (192 \<le> n \<and> n \<le> 222 \<and> n \<noteq> 215) then char_of (n + 32) else c)"

definition lower :: "string \<Rightarrow> string" where
  "lower s = map lower_char s"

section \<open>Task records and the parser\<close>

text \<open>
  A task is the tuple \<^verbatim>\<open>(id, description, labels, status, dependence)\<close> of the program.
\<close>

type_synonym task = "int \<times> string \<times> string list \<times> string \<times> int option"

definition task_id :: "task \<Rightarrow> int" where
  "task_id t = fst t"

definition task_labels :: "task \<Rightarrow> string list" where
  "task_labels t = fst (snd (snd t))"

definition task_status :: "task \<Rightarrow> string" where
  "task_status t = fst (snd (snd (snd t)))"

definition parse_line :: "string \<Rightarrow> task option" where
  \<comment> \<open>the body of the loop of \<^verbatim>\<open>parse_tasks\<close>; \<^const>\<open>None\<close>: nothing is appended\<close>
  "parse_line line0 =
     (let line = strip line0 in
      if line = [] then None
      else
        let parts = py_split CHR '';'' line in
        if length parts \<ge> 2 then
          (case py_int (parts ! 0) of
             None \<Rightarrow> None
           | Some tid \<Rightarrow>
               let description = parts ! 1;
                   labels =
                     (if length parts \<ge> 3 \<and> parts ! 2 \<noteq> ''None''
                      then map strip (filter (\<lambda>label. strip label \<noteq> []) (py_split CHR '','' (parts ! 2)))
                      else []);
                   status =
                     (if length parts \<ge> 4 \<and> strip (parts ! 3) \<noteq> []
                      then strip (parts ! 3)
                      else ''suspended'')
               in
                 if length parts \<ge> 5 \<and> isdigit (strip (parts ! 4)) then
                   (case py_int (strip (parts ! 4)) of
                      None \<Rightarrow> None
                    | Some d \<Rightarrow> Some (tid, description, labels, status, Some d))
                 else Some (tid, description, labels, status, None))
        else None)"

fun parse_tasks :: "string list \<Rightarrow> task list" where
  "parse_tasks [] = []"
| "parse_tasks (line # rest) =
     (case parse_line line of
        None \<Rightarrow> parse_tasks rest
      | Some t \<Rightarrow> t # parse_tasks rest)"

section \<open>Results, faults and the console\<close>

text \<open>
  An operation either raises (\<^const>\<open>Inl\<close>) or returns a value (\<^const>\<open>Inr\<close>). The faults
  are the exceptions that no handler of the program catches. The \<^verbatim>\<open>ValueError\<close> of
  \<^verbatim>\<open>int\<close> is caught wherever it can occur, so it is a branch of the model; the one an
  f-string raises when it formats a new id of too many digits is not caught.

  \<^verbatim>\<open>input(...)\<close> reads the next entry of the list of console entries the operation is
  given: a typed line, or the interruption of the prompt by Ctrl+C. On the empty list the
  prompt raises \<^verbatim>\<open>EOFError\<close>.
\<close>

datatype error = UnboundLocalError | EOFError | KeyboardInterrupt | ValueError

datatype entry = Typed string | Interrupt

datatype ident = IdInt int | IdStr string

fun to_int :: "ident \<Rightarrow> int option" where
  \<comment> \<open>\<^verbatim>\<open>int(task_id)\<close> for the documented argument types; \<^const>\<open>None\<close> is the ValueError\<close>
  "to_int (IdInt i) = Some i"
| "to_int (IdStr s) = py_int s"

type_synonym outcome = "error + (bool \<times> task list \<times> task option)"

fun index_of :: "int \<Rightarrow> task list \<Rightarrow> nat option" where
  \<comment> \<open>where \<^verbatim>\<open>for i, (tid, ...) in enumerate(parsed_tasks): if tid == task_id: ... break\<close>
      runs its body: the position of the first record with that id\<close>
  "index_of k [] = None"
| "index_of k ((tid, desc, lab, state, dep) # rest) =
     (if tid = k then Some 0 else map_option Suc (index_of k rest))"

section \<open>modify\<close>

fun find_parent :: "int \<Rightarrow> task list \<Rightarrow> bool \<times> bool" where
  \<comment> \<open>the inner loop of \<^verbatim>\<open>modify\<close>: \<^verbatim>\<open>(parent_exists, parent_completed)\<close>\<close>
  "find_parent dep [] = (False, False)"
| "find_parent dep ((pid, desc, lab, pstate, pdep) # rest) =
     (if pid = dep then (True, pstate = ''completed'') else find_parent dep rest)"

definition modify_state :: "task list \<Rightarrow> string \<Rightarrow> int option \<Rightarrow> string option \<Rightarrow> string" where
  "modify_state parsed_tasks state dep new_status =
     (case new_status of
        None \<Rightarrow> state
      | Some ns \<Rightarrow>
          if ns = ''started'' \<and> dep \<noteq> None then
            (case find_parent (the dep) parsed_tasks of
               (parent_exists, parent_completed) \<Rightarrow>
                 if parent_exists \<and> \<not> parent_completed then state else ns)
          else if ns \<in> set [''started'', ''suspended'', ''completed'', ''cancelled''] then ns
          else state)"

definition modify :: "string list \<Rightarrow> ident \<Rightarrow> string option \<Rightarrow> string option \<Rightarrow> outcome" where
  "modify tasks tid0 new_details new_status =
     (case to_int tid0 of
        None \<Rightarrow> Inr (False, [], None)
      | Some k \<Rightarrow>
          let parsed_tasks = parse_tasks tasks in
          (case index_of k parsed_tasks of
             None \<Rightarrow> Inr (False, parsed_tasks, None)
           | Some i \<Rightarrow>
               (case parsed_tasks ! i of
                  (tid, desc, lab, state, dep) \<Rightarrow>
                    Inr (True,
                         parsed_tasks[i := (tid,
                                            (case new_details of None \<Rightarrow> desc | Some d \<Rightarrow> d),
                                            lab,
                                            modify_state parsed_tasks state dep new_status,
                                            dep)],
                         Some (tid, desc, lab, state, dep)))))"

section \<open>rm\<close>

fun rm_filter :: "int \<Rightarrow> task list \<Rightarrow> task list \<Rightarrow> task option \<Rightarrow> task list \<times> task option" where
  \<comment> \<open>the first loop of \<^verbatim>\<open>rm\<close>, with \<^verbatim>\<open>filtered_tasks\<close> and \<^verbatim>\<open>old_task\<close> as it goes\<close>
  "rm_filter k [] filtered_tasks old_task = (filtered_tasks, old_task)"
| "rm_filter k ((tid, desc, lab, status, dep) # rest) filtered_tasks old_task =
     (if tid \<noteq> k then rm_filter k rest (filtered_tasks @ [(tid, desc, lab, status, dep)]) old_task
      else rm_filter k rest filtered_tasks (Some (tid, desc, lab, status, dep)))"

fun clear_deps :: "int \<Rightarrow> task list \<Rightarrow> task list" where
  \<comment> \<open>the second loop of \<^verbatim>\<open>rm\<close>, which builds \<^verbatim>\<open>final_tasks\<close>\<close>
  "clear_deps k [] = []"
| "clear_deps k ((tid, desc, lab, status, dep) # rest) =
     (if dep = Some k then (tid, desc, lab, status, None) # clear_deps k rest
      else (tid, desc, lab, status, dep) # clear_deps k rest)"

definition rm :: "string list \<Rightarrow> ident \<Rightarrow> outcome" where
  "rm tasks tid0 =
     (case to_int tid0 of
        None \<Rightarrow> Inr (False, parse_tasks tasks, None)
      | Some k \<Rightarrow>
          let parsed_tasks = parse_tasks tasks;
              original_length = length parsed_tasks
          in
          (case rm_filter k parsed_tasks [] None of
             (filtered_tasks, old_task) \<Rightarrow>
               let found = (length filtered_tasks < original_length);
                   final_tasks = (if found then clear_deps k filtered_tasks else filtered_tasks);
                   old_task = (if found then old_task else None)
               in Inr (found, filtered_tasks, old_task)))"

section \<open>add\_options, rmLabel, clearLabel, rmDep\<close>

fun ask_yes_no :: "entry list \<Rightarrow> error + (string \<times> entry list)" where
  \<comment> \<open>prompts until the lower-cased answer is one of o, n, oui, non\<close>
  "ask_yes_no [] = Inl EOFError"
| "ask_yes_no (Interrupt # ins) = Inl KeyboardInterrupt"
| "ask_yes_no (Typed s # ins) =
     (if lower s \<in> set [''o'', ''n'', ''oui'', ''non''] then Inr (lower s, ins) else ask_yes_no ins)"

fun merge_labels :: "string list \<Rightarrow> string list \<Rightarrow> string list" where
  \<comment> \<open>\<^verbatim>\<open>for label in labels: if label not in new_lab: new_lab.append(label)\<close>\<close>
  "merge_labels new_lab [] = new_lab"
| "merge_labels new_lab (label # labels) =
     (if label \<notin> set new_lab then merge_labels (new_lab @ [label]) labels
      else merge_labels new_lab labels)"

definition add_options ::
  "string list \<Rightarrow> ident \<Rightarrow> string list option \<Rightarrow> int option \<Rightarrow> entry list \<Rightarrow> outcome" where
  "add_options tasks tid0 labels id_dep ins =
     (case to_int tid0 of
        None \<Rightarrow> Inr (False, [], None)
      | Some k \<Rightarrow>
          let parsed_tasks = parse_tasks tasks in
          (case index_of k parsed_tasks of
             None \<Rightarrow> Inr (False, parsed_tasks, None)
           | Some i \<Rightarrow>
               (case parsed_tasks ! i of
                  (tid, desc, lab, state, dep) \<Rightarrow>
                    let new_lab = (case labels of None \<Rightarrow> lab | Some ls \<Rightarrow> merge_labels lab ls) in
                    (case id_dep of
                       None \<Rightarrow>
                         Inr (True, parsed_tasks[i := (tid, desc, new_lab, state, dep)],
                              Some (tid, desc, lab, state, dep))
                     | Some d \<Rightarrow>
                         (case dep of
                            None \<Rightarrow>
                              Inr (True, parsed_tasks[i := (tid, desc, new_lab, state, Some d)],
                                   Some (tid, desc, lab, state, dep))
                          | Some old_dep \<Rightarrow>
                              (case ask_yes_no ins of
                                 Inl e \<Rightarrow> Inl e
                               | Inr (modify_dep, ins') \<Rightarrow>
                                   Inr (True,
                                        parsed_tasks[i := (tid, desc, new_lab, state,
                                           (if modify_dep \<in> set [''o'', ''oui''] then Some d else dep))],
                                        Some (tid, desc, lab, state, dep))))))))"

fun ask_index :: "nat \<Rightarrow> entry list \<Rightarrow> error + nat option" where
  \<comment> \<open>the \<^verbatim>\<open>while True\<close> of \<^verbatim>\<open>rmLabel\<close>; \<^term>\<open>Inr None\<close>: the prompt was interrupted\<close>
  "ask_index len [] = Inl EOFError"
| "ask_index len (Interrupt # ins) = Inr None"
| "ask_index len (Typed s # ins) =
     (case py_int s of
        None \<Rightarrow> ask_index len ins
      | Some n \<Rightarrow> if 0 \<le> n \<and> n < int len then Inr (Some (nat n)) else ask_index len ins)"

definition pop :: "nat \<Rightarrow> 'a list \<Rightarrow> 'a list" where
  \<comment> \<open>the list after \<^verbatim>\<open>lab.pop(n)\<close>, for \<^verbatim>\<open>0 <= n < len(lab)\<close>\<close>
  "pop n xs = take n xs @ drop (Suc n) xs"

definition rmLabel :: "string list \<Rightarrow> ident \<Rightarrow> entry list \<Rightarrow> outcome" where
  "rmLabel tasks tid0 ins =
     (case to_int tid0 of
        None \<Rightarrow> Inr (False, [], None)
      | Some k \<Rightarrow>
          let parsed_tasks = parse_tasks tasks in
          (case index_of k parsed_tasks of
             None \<Rightarrow> Inl UnboundLocalError
           | Some i \<Rightarrow>
               (case parsed_tasks ! i of
                  (tid, desc, lab, status, dep) \<Rightarrow>
                    if lab \<noteq> [] then
                      (case ask_index (length lab) ins of
                         Inl e \<Rightarrow> Inl e
                       | Inr None \<Rightarrow> Inr (False, parsed_tasks, None)
                       | Inr (Some n) \<Rightarrow>
                           Inr (True, parsed_tasks[i := (tid, desc, pop n lab, status, dep)],
                                Some (tid, desc, lab, status, dep)))
                    else Inr (True, parsed_tasks, Some (tid, desc, lab, status, dep)))))"

definition clearLabel :: "string list \<Rightarrow> ident \<Rightarrow> outcome" where
  "clearLabel tasks tid0 =
     (case to_int tid0 of
        None \<Rightarrow> Inr (False, [], None)
      | Some k \<Rightarrow>
          let parsed_tasks = parse_tasks tasks in
          (case index_of k parsed_tasks of
             None \<Rightarrow> Inl UnboundLocalError
           | Some i \<Rightarrow>
               (case parsed_tasks ! i of
                  (tid, desc, lab, status, dep) \<Rightarrow>
                    Inr (True, parsed_tasks[i := (tid, desc, [], status, dep)],
                         Some (tid, desc, lab, status, dep)))))"

definition rmDep :: "string list \<Rightarrow> ident \<Rightarrow> outcome" where
  "rmDep tasks tid0 =
     (case to_int tid0 of
        None \<Rightarrow> Inr (False, [], None)
      | Some k \<Rightarrow>
          let parsed_tasks = parse_tasks tasks in
          (case index_of k parsed_tasks of
             None \<Rightarrow> Inl UnboundLocalError
           | Some i \<Rightarrow>
               (case parsed_tasks ! i of
                  (tid, desc, lab, state, dep) \<Rightarrow>
                    Inr (True, parsed_tasks[i := (tid, desc, lab, state, None)],
                         Some (tid, desc, lab, state, dep)))))"

section \<open>add\<close>

fun max_id :: "task list \<Rightarrow> int" where
  \<comment> \<open>\<^verbatim>\<open>max(task[0] for task in parsed_tasks)\<close>, called on a non-empty list only\<close>
  "max_id [] = 0"
| "max_id [t] = fst t"
| "max_id (t # u # ts) = max (fst t) (max_id (u # ts))"

fun ask_dep :: "int list \<Rightarrow> entry list \<Rightarrow> error + int" where
  \<comment> \<open>the \<^verbatim>\<open>while True\<close> of \<^verbatim>\<open>add\<close>: prompts until the answer is the id of a record\<close>
  "ask_dep id_list [] = Inl EOFError"
| "ask_dep id_list (Interrupt # ins) = Inl KeyboardInterrupt"
| "ask_dep id_list (Typed s # ins) =
     (case py_int s of
        None \<Rightarrow> ask_dep id_list ins
      | Some d \<Rightarrow> if d \<in> set id_list then Inr d else ask_dep id_list ins)"

fun parent_status :: "int \<Rightarrow> task list \<Rightarrow> string" where
  "parent_status id_dep [] = ''suspended''"
| "parent_status id_dep ((pid, desc, lab, pstate, pdep) # rest) =
     (if pid = id_dep then pstate else parent_status id_dep rest)"

definition task_line ::
  "int \<Rightarrow> string \<Rightarrow> string \<Rightarrow> string \<Rightarrow> int option \<Rightarrow> string option" where
  \<comment> \<open>\<^verbatim>\<open>f"{new_id};{details};{labels_str};{status};{id_dep}\n"\<close>; \<^const>\<open>None\<close> is the
      ValueError of formatting an integer\<close>
  "task_line new_id details labels_str status id_dep =
     (case py_str new_id of
        None \<Rightarrow> None
      | Some id_text \<Rightarrow>
          (case (case id_dep of None \<Rightarrow> Some ''None'' | Some d \<Rightarrow> py_str d) of
             None \<Rightarrow> None
           | Some dep_text \<Rightarrow>
               Some (id_text @ '';'' @ details @ '';'' @ labels_str @ '';'' @ status @ '';''
                       @ dep_text @ [CHR 0x0A])))"

definition labels_field :: "string list \<Rightarrow> string" where
  \<comment> \<open>\<^verbatim>\<open>",".join(labels_list) if labels_list else "None"\<close>\<close>
  "labels_field labels_list = (if labels_list \<noteq> [] then py_join '','' labels_list else ''None'')"

definition ask_dependency ::
  "task list \<Rightarrow> string \<Rightarrow> entry list \<Rightarrow> error + (string \<times> int option) option" where
  \<comment> \<open>the interactive part of \<^verbatim>\<open>add\<close>: the final \<^verbatim>\<open>(status, id_dep)\<close>, or \<^const>\<open>None\<close>
      when Ctrl+C cancels the call\<close>
  "ask_dependency parsed_tasks status ins =
     (if parsed_tasks \<noteq> [] then
        (case ask_yes_no ins of
           Inl KeyboardInterrupt \<Rightarrow> Inr None
         | Inl e \<Rightarrow> Inl e
         | Inr (dependence, ins') \<Rightarrow>
             if dependence \<in> set [''oui'', ''o''] then
               (case ask_dep (map fst parsed_tasks) ins' of
                  Inl KeyboardInterrupt \<Rightarrow> Inr None
                | Inl e \<Rightarrow> Inl e
                | Inr id_dep \<Rightarrow>
                    Inr (Some (if (status = ''started'' \<or> status = ''completed'')
                                  \<and> parent_status id_dep parsed_tasks \<noteq> ''completed''
                               then ''suspended'' else status,
                               Some id_dep)))
             else Inr (Some (status, None)))
      else Inr (Some (status, None)))"

definition add ::
  "string list \<Rightarrow> string \<Rightarrow> string list option \<Rightarrow> string \<Rightarrow> entry list
     \<Rightarrow> error + (int \<times> string \<times> string list \<times> string) option" where
  \<comment> \<open>\<^term>\<open>Inr None\<close> is the tuple \<^verbatim>\<open>(None, None, None, None)\<close> of a cancelled call\<close>
  "add tasks details labels status0 ins =
     (let parsed_tasks = parse_tasks tasks;
          new_id = (if parsed_tasks \<noteq> [] then max_id parsed_tasks + 1 else 1);
          labels_list = (case labels of None \<Rightarrow> [] | Some ls \<Rightarrow> ls);
          labels_str = labels_field labels_list;
          status = (if status0 \<notin> set [''started'', ''suspended'', ''completed'', ''cancelled'']
                    then ''suspended'' else status0)
      in
      case ask_dependency parsed_tasks status ins of
        Inl e \<Rightarrow> Inl e
      | Inr None \<Rightarrow> Inr None
      | Inr (Some (status', id_dep)) \<Rightarrow>
          (case task_line new_id details labels_str status' id_dep of
             None \<Rightarrow> Inl ValueError
           | Some new_task_line \<Rightarrow> Inr (Some (new_id, details, labels_list, new_task_line))))"

definition digits_value :: "nat \<Rightarrow> string \<Rightarrow> nat" where
  \<comment> \<open>the number a string of digits denotes, after the digits already read\<close>
  "digits_value acc s = foldl (\<lambda>a c. 10 * a + digit_value c) acc s"

definition dep_field :: "int option \<Rightarrow> string" where
  \<comment> \<open>the last field of a line: \<^verbatim>\<open>{id_dep}\<close>\<close>
  "dep_field id_dep = (case id_dep of None \<Rightarrow> ''None'' | Some d \<Rightarrow> str_int d)"

definition line_body :: "int \<Rightarrow> string \<Rightarrow> string \<Rightarrow> string \<Rightarrow> int option \<Rightarrow> string" where
  \<comment> \<open>a line that \<^const>\<open>task_line\<close> returns, without its line break\<close>
  "line_body new_id details labels_str status id_dep =
     str_int new_id @ CHR '';'' # details @ CHR '';'' # labels_str @ CHR '';'' # status
       @ CHR '';'' # dep_field id_dep"

section \<open>The shape of an updated list\<close>

text \<open>
  The list an operation returns is empty, the parsed list, or the parsed list with one record
  replaced; \<open>R\<close> relates the labels of the record before and after.
\<close>

definition touched :: "task list \<Rightarrow> task list \<Rightarrow> (string list \<Rightarrow> string list \<Rightarrow> bool) \<Rightarrow> bool" where
  "touched parsed ts R \<longleftrightarrow>
     ts = [] \<or> ts = parsed
     \<or> (\<exists>i tid desc lab state dep desc' lab' state' dep'.
           i < length parsed \<and> parsed ! i = (tid, desc, lab, state, dep)
           \<and> ts = parsed[i := (tid, desc', lab', state', dep')] \<and> R lab lab')"

section \<open>Basic facts about the helpers\<close>

lemma py_split_not_Nil: "py_split sep s \<noteq> []"
  by (induction s) (auto split: list.splits)

lemma parse_tasks_append: "parse_tasks (xs @ ys) = parse_tasks xs @ parse_tasks ys"
  by (induction xs) (simp_all split: option.splits)

lemma index_of_SomeD:
  "index_of k xs = Some i \<Longrightarrow> i < length xs \<and> fst (xs ! i) = k"
proof (induction xs arbitrary: i)
  case Nil
  then show ?case by simp
next
  case (Cons t ts)
  then show ?case
    by (cases t) (auto split: if_splits)
qed

lemma index_of_None_iff: "index_of k xs = None \<longleftrightarrow> k \<notin> fst ` set xs"
  by (induction xs) (auto split: if_splits)

lemma find_parent_find:
  "find_parent d xs =
     (case find (\<lambda>t. task_id t = d) xs of
        None \<Rightarrow> (False, False)
      | Some p \<Rightarrow> (True, task_status p = ''completed''))"
  by (induction d xs rule: find_parent.induct) (simp_all add: task_id_def task_status_def)

lemma find_None_task_id: "find (\<lambda>t. task_id t = d) xs = None \<longleftrightarrow> d \<notin> task_id ` set xs"
  by (induction xs) auto

lemma find_unique_id:
  assumes "distinct (map task_id xs)" and "p \<in> set xs" and "task_id p = d"
  shows "find (\<lambda>t. task_id t = d) xs = Some p"
  using assms
proof (induction xs)
  case Nil
  then show ?case by simp
next
  case (Cons x xs)
  show ?case
  proof (cases "task_id x = d")
    case True
    have "p = x"
    proof (rule ccontr)
      assume "p \<noteq> x"
      then have "p \<in> set xs"
        using Cons.prems(2) by simp
      then have "task_id p \<in> task_id ` set xs"
        by (rule imageI)
      then have "task_id x \<in> task_id ` set xs"
        using True Cons.prems(3) by simp
      then show False
        using Cons.prems(1) by simp
    qed
    then show ?thesis
      using True by simp
  next
    case False
    then have "p \<in> set xs"
      using Cons.prems(2,3) by auto
    then show ?thesis
      using Cons False by simp
  qed
qed

lemma modify_found:
  assumes "to_int tid0 = Some k" and "index_of k (parse_tasks tasks) = Some i"
    and "parse_tasks tasks ! i = (tid, desc, lab, state, dep)"
  shows "modify tasks tid0 nd ns =
           Inr (True,
                (parse_tasks tasks)[i := (tid, (case nd of None \<Rightarrow> desc | Some x \<Rightarrow> x), lab,
                                          modify_state (parse_tasks tasks) state dep ns, dep)],
                Some (tid, desc, lab, state, dep))"
  using assms by (simp add: modify_def Let_def)

lemma modify_updates_first:
  assumes "to_int tid0 = Some k" and "modify tasks tid0 nd ns = Inr (True, ts, old)"
  shows "\<exists>i t'. index_of k (parse_tasks tasks) = Some i \<and> ts = (parse_tasks tasks)[i := t'] \<and> fst t' = k"
proof (cases "index_of k (parse_tasks tasks)")
  case None
  then show ?thesis
    using assms by (simp add: modify_def Let_def)
next
  case (Some i)
  obtain tid desc lab state dep where r: "parse_tasks tasks ! i = (tid, desc, lab, state, dep)"
    by (cases "parse_tasks tasks ! i") auto
  have "tid = k"
    using index_of_SomeD [OF Some] r by simp
  then show ?thesis
    using assms Some r by (auto simp: modify_def Let_def)
qed

lemma add_options_updates_first:
  assumes "to_int tid0 = Some k" and "add_options tasks tid0 labels id_dep ins = Inr (True, ts, old)"
  shows "\<exists>i t'. index_of k (parse_tasks tasks) = Some i \<and> ts = (parse_tasks tasks)[i := t'] \<and> fst t' = k"
proof (cases "index_of k (parse_tasks tasks)")
  case None
  then show ?thesis
    using assms by (simp add: add_options_def Let_def)
next
  case (Some i)
  obtain tid desc lab state dep where r: "parse_tasks tasks ! i = (tid, desc, lab, state, dep)"
    by (cases "parse_tasks tasks ! i") auto
  have "tid = k"
    using index_of_SomeD [OF Some] r by simp
  then show ?thesis
    using assms Some r
    by (auto simp: add_options_def Let_def split: option.splits sum.splits)
qed

lemma rmLabel_updates_first:
  assumes "to_int tid0 = Some k" and "rmLabel tasks tid0 ins = Inr (True, ts, old)"
  shows "\<exists>i t'. index_of k (parse_tasks tasks) = Some i \<and> ts = (parse_tasks tasks)[i := t'] \<and> fst t' = k"
proof (cases "index_of k (parse_tasks tasks)")
  case None
  then show ?thesis
    using assms by (simp add: rmLabel_def Let_def)
next
  case (Some i)
  obtain tid desc lab state dep where r: "parse_tasks tasks ! i = (tid, desc, lab, state, dep)"
    by (cases "parse_tasks tasks ! i") auto
  have k: "tid = k"
    using index_of_SomeD [OF Some] r by simp
  show ?thesis
  proof (cases "lab = []")
    case True
    then have "ts = parse_tasks tasks"
      using assms Some r by (simp add: rmLabel_def Let_def)
    then have "ts = (parse_tasks tasks)[i := parse_tasks tasks ! i]"
      by simp
    then show ?thesis
      using Some r k by (metis fst_conv)
  next
    case False
    then show ?thesis
      using assms Some r k
      by (auto simp: rmLabel_def Let_def split: option.splits sum.splits)
  qed
qed

lemma clearLabel_updates_first:
  assumes "to_int tid0 = Some k" and "clearLabel tasks tid0 = Inr (True, ts, old)"
  shows "\<exists>i t'. index_of k (parse_tasks tasks) = Some i \<and> ts = (parse_tasks tasks)[i := t'] \<and> fst t' = k"
proof (cases "index_of k (parse_tasks tasks)")
  case None
  then show ?thesis
    using assms by (simp add: clearLabel_def Let_def)
next
  case (Some i)
  obtain tid desc lab state dep where r: "parse_tasks tasks ! i = (tid, desc, lab, state, dep)"
    by (cases "parse_tasks tasks ! i") auto
  have "tid = k"
    using index_of_SomeD [OF Some] r by simp
  then show ?thesis
    using assms Some r by (auto simp: clearLabel_def Let_def)
qed

lemma rmDep_updates_first:
  assumes "to_int tid0 = Some k" and "rmDep tasks tid0 = Inr (True, ts, old)"
  shows "\<exists>i t'. index_of k (parse_tasks tasks) = Some i \<and> ts = (parse_tasks tasks)[i := t'] \<and> fst t' = k"
proof (cases "index_of k (parse_tasks tasks)")
  case None
  then show ?thesis
    using assms by (simp add: rmDep_def Let_def)
next
  case (Some i)
  obtain tid desc lab state dep where r: "parse_tasks tasks ! i = (tid, desc, lab, state, dep)"
    by (cases "parse_tasks tasks ! i") auto
  have "tid = k"
    using index_of_SomeD [OF Some] r by simp
  then show ?thesis
    using assms Some r by (auto simp: rmDep_def Let_def)
qed

lemma update_first_frame:
  assumes "ts = parsed[i := t']" and "fst t' = k"
  shows "length ts = length parsed \<and> (\<forall>j < length ts. task_id (ts ! j) \<noteq> k \<longrightarrow> ts ! j = parsed ! j)"
proof -
  have "ts ! j = parsed ! j" if "j < length ts" and "task_id (ts ! j) \<noteq> k" for j
  proof (cases "j = i")
    case True
    then show ?thesis
      using that assms by (simp add: task_id_def)
  next
    case False
    then show ?thesis
      using assms by simp
  qed
  then show ?thesis
    using assms by simp
qed

lemma max_id_Max: "xs \<noteq> [] \<Longrightarrow> max_id xs = Max (task_id ` set xs)"
proof (induction xs rule: max_id.induct)
  case 1
  then show ?case by simp
next
  case (2 t)
  then show ?case by (simp add: task_id_def)
next
  case (3 t u ts)
  then show ?case by (simp add: task_id_def)
qed

lemma add_result:
  assumes "add tasks details labels status ins = Inr (Some (new_id, d, ls, line))"
  shows "\<exists>st dep.
           ask_dependency (parse_tasks tasks)
             (if status \<notin> set [''started'', ''suspended'', ''completed'', ''cancelled'']
              then ''suspended'' else status) ins = Inr (Some (st, dep))
           \<and> new_id = (if parse_tasks tasks = [] then 1 else max_id (parse_tasks tasks) + 1)
           \<and> d = details
           \<and> ls = (case labels of None \<Rightarrow> [] | Some l \<Rightarrow> l)
           \<and> task_line new_id details (labels_field ls) st dep = Some line"
proof -
  let ?status = "if status \<notin> set [''started'', ''suspended'', ''completed'', ''cancelled'']
                 then ''suspended'' else status"
  show ?thesis
  proof (cases "ask_dependency (parse_tasks tasks) ?status ins")
    case (Inl e)
    then show ?thesis
      using assms by (simp add: add_def Let_def)
  next
    case (Inr r)
    show ?thesis
    proof (cases r)
      case None
      then show ?thesis
        using assms Inr by (simp add: add_def Let_def)
    next
      case (Some sd)
      obtain st dep where sd: "sd = (st, dep)"
        by (cases sd) auto
      have "ask_dependency (parse_tasks tasks) ?status ins = Inr (Some (st, dep))"
        using Inr Some sd by simp
      then show ?thesis
        using assms by (auto simp: add_def Let_def split: option.splits)
    qed
  qed
qed

lemma add_new_id:
  assumes "add tasks details labels status ins = Inr (Some (new_id, d, ls, line))"
  shows "new_id = (if parse_tasks tasks = [] then 1 else max_id (parse_tasks tasks) + 1)"
  using add_result [OF assms] by blast

lemma ask_dependency_status:
  assumes "ask_dependency parsed_tasks status ins = Inr (Some (st, dep))"
  shows "st = status \<or> st = ''suspended''"
proof (cases "parsed_tasks = []")
  case True
  then show ?thesis
    using assms by (simp add: ask_dependency_def)
next
  case False
  show ?thesis
  proof (cases "ask_yes_no ins")
    case (Inl e)
    then show ?thesis
      using assms False by (cases e) (simp_all add: ask_dependency_def)
  next
    case (Inr a)
    obtain dependence ins' where a: "a = (dependence, ins')"
      by (cases a) auto
    show ?thesis
    proof (cases "dependence \<in> set [''oui'', ''o'']")
      case no: False
      then show ?thesis
        using assms False Inr a by (simp add: ask_dependency_def)
    next
      case yes: True
      show ?thesis
      proof (cases "ask_dep (map fst parsed_tasks) ins'")
        case (Inl e)
        then show ?thesis
          using assms False \<open>ask_yes_no ins = Inr a\<close> a yes
          by (cases e) (simp_all add: ask_dependency_def)
      next
        case dep: (Inr id_dep)
        then show ?thesis
          using assms False \<open>ask_yes_no ins = Inr a\<close> a yes
          by (simp add: ask_dependency_def split: if_splits)
      qed
    qed
  qed
qed

subsection \<open>Labels\<close>

lemma parse_line_labels:
  assumes "parse_line line = Some t"
  shows "[] \<notin> set (task_labels t)"
proof -
  have "[] \<notin> set (map strip (filter (\<lambda>label. strip label \<noteq> []) xs))" for xs
    by auto
  then show ?thesis
    using assms unfolding parse_line_def Let_def task_labels_def
    by (auto split: if_splits option.splits simp del: set_map set_filter)
qed

lemma parse_tasks_labels: "t \<in> set (parse_tasks tasks) \<Longrightarrow> [] \<notin> set (task_labels t)"
  by (induction tasks) (auto split: option.splits dest: parse_line_labels)

lemma merge_labels_distinct: "distinct new_lab \<Longrightarrow> distinct (merge_labels new_lab labels)"
  by (induction new_lab labels rule: merge_labels.induct) simp_all

lemma merge_labels_set: "set (merge_labels new_lab labels) = set new_lab \<union> set labels"
  by (induction new_lab labels rule: merge_labels.induct) auto

lemma pop_distinct: "distinct xs \<Longrightarrow> distinct (pop n xs)"
proof -
  assume d: "distinct xs"
  have "distinct (take n xs @ drop n xs)"
    using d by simp
  then have "distinct (take n xs) \<and> distinct (drop n xs) \<and> set (take n xs) \<inter> set (drop n xs) = {}"
    by (simp only: distinct_append)
  moreover have "set (drop (Suc n) xs) \<subseteq> set (drop n xs)"
    by (simp add: set_drop_subset_set_drop)
  moreover have "distinct (drop (Suc n) xs)"
    using d by simp
  ultimately show ?thesis
    unfolding pop_def by auto
qed

lemma pop_set: "set (pop n xs) \<subseteq> set xs"
  unfolding pop_def by (auto dest: in_set_takeD in_set_dropD)

lemma rm_filter_set:
  "rm_filter k xs acc old = (filtered, old') \<Longrightarrow> set filtered \<subseteq> set xs \<union> set acc"
proof (induction k xs acc old rule: rm_filter.induct)
  case (1 k filtered_tasks old_task)
  then show ?case by simp
next
  case (2 k tid desc lab status dep rest filtered_tasks old_task)
  then show ?case
    by (auto split: if_splits)
qed

lemma in_set_updateD: "t \<in> set (xs[i := t']) \<Longrightarrow> t = t' \<or> t \<in> set xs"
  using set_update_subset_insert [of xs i t'] by auto

lemma touchedI:
  assumes "index_of k parsed = Some i" and "parsed ! i = (tid, desc, lab, state, dep)"
    and "ts = parsed[i := (tid, desc', lab', state', dep')]" and "R lab lab'"
  shows "touched parsed ts R"
  unfolding touched_def using assms index_of_SomeD [OF assms(1)] by blast

lemma modify_touched:
  assumes "modify tasks tid0 nd ns = Inr (found, ts, old)"
  shows "touched (parse_tasks tasks) ts (\<lambda>lab lab'. lab' = lab)"
proof (cases "to_int tid0")
  case None
  then show ?thesis
    using assms by (simp add: modify_def touched_def)
next
  case (Some k)
  show ?thesis
  proof (cases "index_of k (parse_tasks tasks)")
    case None
    then show ?thesis
      using assms Some by (simp add: modify_def Let_def touched_def)
  next
    case i: (Some i)
    obtain tid desc lab state dep where r: "parse_tasks tasks ! i = (tid, desc, lab, state, dep)"
      by (cases "parse_tasks tasks ! i") auto
    have "ts = (parse_tasks tasks)[i := (tid, (case nd of None \<Rightarrow> desc | Some x \<Rightarrow> x), lab,
                                         modify_state (parse_tasks tasks) state dep ns, dep)]"
      using assms Some i r by (simp add: modify_def Let_def)
    then show ?thesis
      using touchedI [OF i r] by simp
  qed
qed


lemma add_options_touched:
  assumes "add_options tasks tid0 labels id_dep ins = Inr (found, ts, old)"
  shows "touched (parse_tasks tasks) ts
           (\<lambda>lab lab'. lab' = (case labels of None \<Rightarrow> lab | Some ls \<Rightarrow> merge_labels lab ls))"
proof (cases "to_int tid0")
  case None
  then show ?thesis
    using assms by (simp add: add_options_def touched_def)
next
  case (Some k)
  show ?thesis
  proof (cases "index_of k (parse_tasks tasks)")
    case None
    then show ?thesis
      using assms Some by (simp add: add_options_def Let_def touched_def)
  next
    case i: (Some i)
    obtain tid desc lab state dep where r: "parse_tasks tasks ! i = (tid, desc, lab, state, dep)"
      by (cases "parse_tasks tasks ! i") auto
    let ?new = "case labels of None \<Rightarrow> lab | Some ls \<Rightarrow> merge_labels lab ls"
    have "\<exists>dep'. ts = (parse_tasks tasks)[i := (tid, desc, ?new, state, dep')]"
      using assms Some i r
      by (auto simp: add_options_def Let_def split: option.splits sum.splits prod.splits)
    then obtain dep' where "ts = (parse_tasks tasks)[i := (tid, desc, ?new, state, dep')]"
      by blast
    then show ?thesis
      using touchedI [OF i r] by simp
  qed
qed

lemma rmLabel_touched:
  assumes "rmLabel tasks tid0 ins = Inr (found, ts, old)"
  shows "touched (parse_tasks tasks) ts (\<lambda>lab lab'. \<exists>n. lab' = pop n lab)"
proof (cases "to_int tid0")
  case None
  then show ?thesis
    using assms by (simp add: rmLabel_def touched_def)
next
  case (Some k)
  show ?thesis
  proof (cases "index_of k (parse_tasks tasks)")
    case None
    then show ?thesis
      using assms Some by (simp add: rmLabel_def Let_def touched_def)
  next
    case i: (Some i)
    obtain tid desc lab state dep where r: "parse_tasks tasks ! i = (tid, desc, lab, state, dep)"
      by (cases "parse_tasks tasks ! i") auto
    have "ts = parse_tasks tasks \<or> (\<exists>n. ts = (parse_tasks tasks)[i := (tid, desc, pop n lab, state, dep)])"
      using assms Some i r
      by (auto simp: rmLabel_def Let_def split: option.splits sum.splits if_splits)
    then show ?thesis
    proof
      assume "ts = parse_tasks tasks"
      then show ?thesis
        by (simp add: touched_def)
    next
      assume "\<exists>n. ts = (parse_tasks tasks)[i := (tid, desc, pop n lab, state, dep)]"
      then obtain n where "ts = (parse_tasks tasks)[i := (tid, desc, pop n lab, state, dep)]"
        by blast
      then show ?thesis
        using touchedI [OF i r, of ts desc "pop n lab" state dep "\<lambda>lab lab'. \<exists>n. lab' = pop n lab"]
        by (simp add: exI [of _ n])
    qed
  qed
qed

lemma clearLabel_touched:
  assumes "clearLabel tasks tid0 = Inr (found, ts, old)"
  shows "touched (parse_tasks tasks) ts (\<lambda>lab lab'. lab' = [])"
proof (cases "to_int tid0")
  case None
  then show ?thesis
    using assms by (simp add: clearLabel_def touched_def)
next
  case (Some k)
  show ?thesis
  proof (cases "index_of k (parse_tasks tasks)")
    case None
    then show ?thesis
      using assms Some by (simp add: clearLabel_def Let_def touched_def)
  next
    case i: (Some i)
    obtain tid desc lab state dep where r: "parse_tasks tasks ! i = (tid, desc, lab, state, dep)"
      by (cases "parse_tasks tasks ! i") auto
    have "ts = (parse_tasks tasks)[i := (tid, desc, [], state, dep)]"
      using assms Some i r by (simp add: clearLabel_def Let_def)
    then show ?thesis
      using touchedI [OF i r] by simp
  qed
qed

lemma rmDep_touched:
  assumes "rmDep tasks tid0 = Inr (found, ts, old)"
  shows "touched (parse_tasks tasks) ts (\<lambda>lab lab'. lab' = lab)"
proof (cases "to_int tid0")
  case None
  then show ?thesis
    using assms by (simp add: rmDep_def touched_def)
next
  case (Some k)
  show ?thesis
  proof (cases "index_of k (parse_tasks tasks)")
    case None
    then show ?thesis
      using assms Some by (simp add: rmDep_def Let_def touched_def)
  next
    case i: (Some i)
    obtain tid desc lab state dep where r: "parse_tasks tasks ! i = (tid, desc, lab, state, dep)"
      by (cases "parse_tasks tasks ! i") auto
    have "ts = (parse_tasks tasks)[i := (tid, desc, lab, state, None)]"
      using assms Some i r by (simp add: rmDep_def Let_def)
    then show ?thesis
      using touchedI [OF i r] by simp
  qed
qed

lemma rm_subset:
  assumes "rm tasks tid0 = Inr (found, ts, old)"
  shows "set ts \<subseteq> set (parse_tasks tasks)"
proof (cases "to_int tid0")
  case None
  then show ?thesis
    using assms by (simp add: rm_def)
next
  case (Some k)
  obtain filtered old' where f: "rm_filter k (parse_tasks tasks) [] None = (filtered, old')"
    by (cases "rm_filter k (parse_tasks tasks) [] None") auto
  have "ts = filtered"
    using assms Some f by (simp add: rm_def Let_def)
  then show ?thesis
    using rm_filter_set [OF f] by simp
qed

lemma touched_labels:
  assumes T: "touched parsed ts R"
    and old: "\<And>u. u \<in> set parsed \<Longrightarrow> P (task_labels u)"
    and step: "\<And>lab lab'. P lab \<Longrightarrow> R lab lab' \<Longrightarrow> P lab'"
    and t: "t \<in> set ts"
  shows "P (task_labels t)"
proof -
  have "ts = [] \<or> ts = parsed
     \<or> (\<exists>i tid desc lab state dep desc' lab' state' dep'.
           i < length parsed \<and> parsed ! i = (tid, desc, lab, state, dep)
           \<and> ts = parsed[i := (tid, desc', lab', state', dep')] \<and> R lab lab')"
    using T by (simp only: touched_def)
  then show ?thesis
  proof (elim disjE exE conjE)
    assume "ts = []"
    then show ?thesis using t by simp
  next
    assume "ts = parsed"
    then show ?thesis using old t by simp
  next
    fix i tid desc lab state dep desc' lab' state' dep'
    assume i: "i < length parsed" and r: "parsed ! i = (tid, desc, lab, state, dep)"
      and ts: "ts = parsed[i := (tid, desc', lab', state', dep')]" and R: "R lab lab'"
    have "parsed ! i \<in> set parsed"
      using i by (rule nth_mem)
    then have "P (task_labels (parsed ! i))"
      by (rule old)
    then have "P lab"
      by (simp add: r task_labels_def)
    then have new: "P lab'"
      using R by (rule step)
    have "t \<in> set (parsed[i := (tid, desc', lab', state', dep')])"
      using t ts by simp
    then have "t = (tid, desc', lab', state', dep') \<or> t \<in> set parsed"
      by (rule in_set_updateD)
    then show ?thesis
    proof
      assume "t = (tid, desc', lab', state', dep')"
      then have "task_labels t = lab'"
        by (simp add: task_labels_def)
      then show ?thesis
        using new by simp
    next
      assume "t \<in> set parsed"
      then show ?thesis
        by (rule old)
    qed
  qed
qed

lemma operations_labels:
  assumes r: "r \<in> {modify tasks tid0 nd ns, rm tasks tid0, add_options tasks tid0 labels id_dep ins,
                    rmLabel tasks tid0 ins', clearLabel tasks tid0, rmDep tasks tid0}"
    and res: "r = Inr (found, ts, old)"
    and parsed: "\<And>u. u \<in> set (parse_tasks tasks) \<Longrightarrow> P (task_labels u)"
    and empty: "P []"
    and popped: "\<And>L n. P L \<Longrightarrow> P (pop n L)"
    and merged: "\<And>L ls. labels = Some ls \<Longrightarrow> P L \<Longrightarrow> P (merge_labels L ls)"
    and t: "t \<in> set ts"
  shows "P (task_labels t)"
proof -
  consider (modify) "modify tasks tid0 nd ns = Inr (found, ts, old)"
    | (rm) "rm tasks tid0 = Inr (found, ts, old)"
    | (add_options) "add_options tasks tid0 labels id_dep ins = Inr (found, ts, old)"
    | (rmLabel) "rmLabel tasks tid0 ins' = Inr (found, ts, old)"
    | (clearLabel) "clearLabel tasks tid0 = Inr (found, ts, old)"
    | (rmDep) "rmDep tasks tid0 = Inr (found, ts, old)"
    using r res by (elim insertE emptyE) simp_all
  then show ?thesis
  proof cases
    case modify
    show ?thesis
      by (rule touched_labels [where P = P, OF modify_touched [OF modify] parsed _ t]) simp_all
  next
    case rm
    then have "t \<in> set (parse_tasks tasks)"
      using rm_subset t by blast
    then show ?thesis
      by (rule parsed)
  next
    case add_options
    show ?thesis
    proof (rule touched_labels [where P = P, OF add_options_touched [OF add_options] parsed _ t])
      fix lab lab' :: "string list"
      assume "P lab" and "lab' = (case labels of None \<Rightarrow> lab | Some ls \<Rightarrow> merge_labels lab ls)"
      then show "P lab'"
        using merged by (cases labels) simp_all
    qed simp
  next
    case rmLabel
    show ?thesis
    proof (rule touched_labels [where P = P, OF rmLabel_touched [OF rmLabel] parsed _ t])
      fix lab lab' :: "string list"
      assume "P lab" and "\<exists>n. lab' = pop n lab"
      then show "P lab'"
        using popped by blast
    qed simp
  next
    case clearLabel
    show ?thesis
      by (rule touched_labels [where P = P, OF clearLabel_touched [OF clearLabel] parsed _ t]) (simp_all add: empty)
  next
    case rmDep
    show ?thesis
      by (rule touched_labels [where P = P, OF rmDep_touched [OF rmDep] parsed _ t]) simp_all
  qed
qed

lemma distinct_kept:
  assumes r: "r \<in> {modify tasks tid0 nd ns, rm tasks tid0, add_options tasks tid0 labels id_dep ins,
                    rmLabel tasks tid0 ins', clearLabel tasks tid0, rmDep tasks tid0}"
    and res: "r = Inr (found, ts, old)"
    and d: "\<And>u. u \<in> set (parse_tasks tasks) \<Longrightarrow> distinct (task_labels u)"
    and t: "t \<in> set ts"
  shows "distinct (task_labels t)"
proof -
  have e: "distinct ([] :: string list)"
    by simp
  have p: "distinct (pop n L)" if "distinct L" for L :: "string list" and n
    using that by (rule pop_distinct)
  have m: "distinct (merge_labels L ls)" if "labels = Some ls" and "distinct L" for L ls
    using that(2) by (rule merge_labels_distinct)
  show ?thesis
    by (rule operations_labels [where P = distinct, OF r res d e p m t])
qed

lemma nonempty_kept:
  assumes r: "r \<in> {modify tasks tid0 nd ns, rm tasks tid0, add_options tasks tid0 labels id_dep ins,
                    rmLabel tasks tid0 ins', clearLabel tasks tid0, rmDep tasks tid0}"
    and res: "r = Inr (found, ts, old)"
    and given: "\<And>ls. labels = Some ls \<Longrightarrow> [] \<notin> set ls"
    and t: "t \<in> set ts"
  shows "[] \<notin> set (task_labels t)"
proof -
  let ?P = "\<lambda>L :: string list. [] \<notin> set L"
  have d: "?P (task_labels u)" if "u \<in> set (parse_tasks tasks)" for u
    using that by (rule parse_tasks_labels)
  have e: "?P []"
    by simp
  have p: "?P (pop n L)" if "?P L" for L n
    using that pop_set [of n L] by (rule contra_subsetD [rotated])
  have m: "?P (merge_labels L ls)" if "labels = Some ls" and "?P L" for L ls
    using that(2) given [OF that(1)] by (simp add: merge_labels_set)
  show ?thesis
    by (rule operations_labels [where P = ?P, OF r res d e p m t])
qed

subsection \<open>Integers as text\<close>

lemma is_decimal_digit_char: "d < 10 \<Longrightarrow> is_decimal (digit_char d)"
  by (simp add: is_decimal_def digit_char_def)

lemma digit_value_digit_char: "d < 10 \<Longrightarrow> digit_value (digit_char d) = d"
  by (simp add: digit_value_def digit_char_def)

lemma str_nat_decimal: "list_all is_decimal (str_nat n)"
proof (induction n rule: str_nat.induct)
  case (1 n)
  show ?case
  proof (cases "n < 10")
    case True
    then show ?thesis
      by (simp add: str_nat.simps [of n] is_decimal_digit_char)
  next
    case False
    then show ?thesis
      using 1 by (simp add: str_nat.simps [of n] is_decimal_digit_char)
  qed
qed

lemma str_nat_not_Nil: "str_nat n \<noteq> []"
  by (simp add: str_nat.simps [of n])

lemma read_digits_decimal:
  "list_all is_decimal s \<Longrightarrow> read_digits acc s = Some (digits_value acc s)"
  by (induction s arbitrary: acc) (simp_all add: digits_value_def)

lemma digits_value_str_nat: "digits_value 0 (str_nat n) = n"
proof (induction n rule: str_nat.induct)
  case (1 n)
  show ?case
  proof (cases "n < 10")
    case True
    then show ?thesis
      by (simp add: str_nat.simps [of n] digits_value_def digit_value_digit_char)
  next
    case False
    then have "digits_value 0 (str_nat (n div 10)) = n div 10"
      using 1 by simp
    then show ?thesis
      using False
      by (simp add: str_nat.simps [of n] digits_value_def digit_value_digit_char)
  qed
qed

lemma read_nat_str_nat: "read_nat (str_nat n) = Some n"
proof (cases "str_nat n")
  case Nil
  then show ?thesis
    using str_nat_not_Nil by simp
next
  case (Cons c cs)
  have all: "list_all is_decimal (c # cs)"
    using str_nat_decimal [of n] Cons by simp
  have "read_digits 0 (c # cs) = Some (digits_value 0 (c # cs))"
    using all by (rule read_digits_decimal)
  then have "read_digits (digit_value c) cs = Some n"
    using all digits_value_str_nat [of n] Cons by simp
  then show ?thesis
    using all Cons by (simp add: read_nat_def)
qed

lemma decimal_plain:
  assumes "is_decimal c"
  shows "\<not> isspace c" and "\<not> int_space c" and "c \<noteq> CHR ''-''" and "c \<noteq> CHR ''+''"
    and "c \<noteq> CHR '';''" and "c \<noteq> CHR '',''"
  using assms by (auto simp: is_decimal_def isspace_def int_space_def)

lemma dropWhile_hd: "s \<noteq> [] \<Longrightarrow> \<not> P (hd s) \<Longrightarrow> dropWhile P s = s"
  by (cases s) simp_all

lemma dropWhile_last: "s \<noteq> [] \<Longrightarrow> \<not> P (last s) \<Longrightarrow> rev (dropWhile P (rev s)) = s"
  by (simp add: dropWhile_hd hd_rev)

lemma str_nat_ends: "is_decimal (hd (str_nat n))" "is_decimal (last (str_nat n))"
  using str_nat_decimal [of n] str_nat_not_Nil [of n]
  by (simp_all add: list_all_iff)

lemma str_int_not_Nil: "str_int i \<noteq> []"
  by (simp add: str_int_def str_nat_not_Nil)

lemma str_int_last: "is_decimal (last (str_int i))"
  by (simp add: str_int_def str_nat_not_Nil str_nat_ends)

lemma str_int_hd: "hd (str_int i) = CHR ''-'' \<or> is_decimal (hd (str_int i))"
  by (simp add: str_int_def str_nat_ends)

lemma filter_decimal_str_int: "filter is_decimal (str_int i) = str_nat (nat \<bar>i\<bar>)"
proof -
  have all: "filter is_decimal (str_nat n) = str_nat n" for n
    using str_nat_decimal [of n] by (simp add: list_all_iff)
  have minus: "\<not> is_decimal CHR ''-''"
    by (simp add: is_decimal_def)
  show ?thesis
  proof (cases "i < 0")
    case True
    then have "nat \<bar>i\<bar> = nat (- i)"
      by simp
    then show ?thesis
      using True all minus by (simp add: str_int_def)
  next
    case False
    then have "nat \<bar>i\<bar> = nat i"
      by simp
    then show ?thesis
      using False all by (simp add: str_int_def)
  qed
qed

lemma py_int_str_int:
  assumes "decimal_digits i \<le> max_str_digits"
  shows "py_int (str_int i) = Some i"
proof -
  have h: "\<not> int_space (hd (str_int i))"
    using str_int_hd [of i] decimal_plain(2) by (auto simp: int_space_def)
  have l: "\<not> int_space (last (str_int i))"
    using str_int_last decimal_plain(2) by blast
  have t: "rev (dropWhile int_space (rev (dropWhile int_space (str_int i)))) = str_int i"
    using h l by (simp add: dropWhile_hd dropWhile_last str_int_not_Nil)
  have n: "\<not> length (filter is_decimal (str_int i)) > max_str_digits"
    using assms by (simp add: filter_decimal_str_int decimal_digits_def)
  show ?thesis
  proof (cases "i < 0")
    case True
    then show ?thesis
      unfolding py_int_def t Let_def using n by (simp add: str_int_def read_nat_str_nat)
  next
    case False
    obtain c cs where c: "str_nat (nat i) = c # cs"
      using str_nat_not_Nil [of "nat i"] by (cases "str_nat (nat i)") auto
    have "is_decimal c"
      using str_nat_ends(1) [of "nat i"] c by simp
    then have "c \<noteq> CHR ''-''" and "c \<noteq> CHR ''+''"
      using decimal_plain by blast+
    then show ?thesis
      unfolding py_int_def t Let_def using n False c read_nat_str_nat [of "nat i"]
      by (simp add: str_int_def)
  qed
qed

subsection \<open>Splitting, joining and stripping\<close>

lemma py_split_no_sep: "sep \<notin> set s \<Longrightarrow> py_split sep s = [s]"
  by (induction s) auto

lemma py_split_append:
  "sep \<notin> set a \<Longrightarrow> py_split sep (a @ sep # b) = a # py_split sep b"
  by (induction a) auto

lemma py_split_join:
  assumes "xs \<noteq> []" and "\<forall>x \<in> set xs. sep \<notin> set x"
  shows "py_split sep (py_join [sep] xs) = xs"
  using assms
proof (induction "[sep]" xs rule: py_join.induct)
  case 1
  then show ?case by simp
next
  case (2 x)
  then show ?case by (simp add: py_split_no_sep)
next
  case (3 x y ys)
  then show ?case by (simp add: py_split_append)
qed

lemma py_join_chars:
  "c \<in> set (py_join sep xs) \<Longrightarrow> c \<in> set sep \<or> (\<exists>x \<in> set xs. c \<in> set x)"
  by (induction sep xs rule: py_join.induct) auto

lemma py_join_two_has_sep: "set sep \<subseteq> set (py_join sep (x # y # ys))"
  by auto

lemma strip_plain:
  assumes "s \<noteq> []" and "\<not> isspace (hd s)" and "\<not> isspace (last s)"
  shows "strip s = s"
  using assms by (simp add: strip_def lstrip_def rstrip_def dropWhile_hd dropWhile_last)

lemma strip_newline:
  assumes "s \<noteq> []" and "\<not> isspace (hd s)" and "\<not> isspace (last s)"
  shows "strip (s @ [CHR 0x0A]) = s"
proof -
  have "lstrip (s @ [CHR 0x0A]) = s @ [CHR 0x0A]"
    using assms(1,2) by (simp add: lstrip_def dropWhile_hd)
  moreover have "rstrip (s @ [CHR 0x0A]) = rstrip s"
    by (simp add: rstrip_def isspace_def)
  moreover have "rstrip s = s"
    using assms(1,3) by (simp add: rstrip_def dropWhile_last)
  ultimately show ?thesis
    by (simp add: strip_def)
qed

lemma str_int_chars: "c \<in> set (str_int i) \<Longrightarrow> c = CHR ''-'' \<or> is_decimal c"
  using str_nat_decimal by (auto simp: str_int_def list_all_iff split: if_splits)

lemma str_int_no_semicolon: "CHR '';'' \<notin> set (str_int i)"
  using str_int_chars [of "CHR '';''" i] decimal_plain(5) by auto

lemma str_int_not_space_hd: "\<not> isspace (hd (str_int i))"
  using str_int_hd [of i] decimal_plain(1) by (auto simp: isspace_def)

lemma str_int_not_space_last: "\<not> isspace (last (str_int i))"
  using str_int_last decimal_plain(1) by blast

lemma strip_str_int: "strip (str_int i) = str_int i"
  by (simp add: strip_plain str_int_not_Nil str_int_not_space_hd str_int_not_space_last)

lemma isdigit_str_int: "isdigit (str_int i) \<longleftrightarrow> 0 \<le> i"
proof (cases "i < 0")
  case True
  then show ?thesis
    by (simp add: isdigit_def str_int_def char_isdigit_def is_decimal_def)
next
  case False
  have "list_all char_isdigit (str_nat (nat i))"
    using str_nat_decimal [of "nat i"] by (simp add: list_all_iff char_isdigit_def)
  then show ?thesis
    using False by (simp add: isdigit_def str_int_def str_nat_not_Nil)
qed

subsection \<open>The line of a new record\<close>

lemma status_plain:
  assumes "st \<in> set [''started'', ''suspended'', ''completed'', ''cancelled'']"
  shows "strip st = st" and "st \<noteq> []" and "CHR '';'' \<notin> set st"
  using assms by (auto simp: strip_def lstrip_def rstrip_def isspace_def)

lemma labels_field_not_None:
  assumes "L \<noteq> []" and "L \<noteq> [''None'']" and "\<forall>l \<in> set L. CHR '','' \<notin> set l"
  shows "labels_field L \<noteq> ''None''"
proof (cases L)
  case Nil
  then show ?thesis using assms(1) by simp
next
  case (Cons x xs)
  show ?thesis
  proof (cases xs)
    case Nil
    then show ?thesis
      using Cons assms(2) by (simp add: labels_field_def)
  next
    case (Cons y ys)
    have "CHR '','' \<in> set (py_join '','' (x # y # ys))"
      by simp
    moreover have "CHR '','' \<notin> set ''None''"
      by simp
    ultimately have "py_join '','' (x # y # ys) \<noteq> ''None''"
      by metis
    then show ?thesis
      using \<open>L = x # xs\<close> Cons by (simp add: labels_field_def)
  qed
qed

lemma labels_field_split:
  assumes "L \<noteq> []" and "\<forall>l \<in> set L. l \<noteq> [] \<and> strip l = l \<and> CHR '','' \<notin> set l"
  shows "map strip (filter (\<lambda>label. strip label \<noteq> []) (py_split CHR '','' (labels_field L))) = L"
proof -
  have "py_split CHR '','' (labels_field L) = L"
    using assms py_split_join [of L "CHR '',''"] by (simp add: labels_field_def)
  moreover have "filter (\<lambda>label. strip label \<noteq> []) L = L"
    using assms(2) by (simp add: filter_id_conv)
  moreover have "map strip L = L"
    using assms(2) by (simp add: map_idI)
  ultimately show ?thesis
    by simp
qed

lemma labels_field_no_semicolon:
  assumes "\<forall>l \<in> set L. CHR '';'' \<notin> set l"
  shows "CHR '';'' \<notin> set (labels_field L)"
proof
  assume a: "CHR '';'' \<in> set (labels_field L)"
  show False
  proof (cases "L = []")
    case True
    then show ?thesis
      using a by (simp add: labels_field_def)
  next
    case False
    then have "CHR '';'' \<in> set (py_join '','' L)"
      using a by (simp add: labels_field_def)
    then have "CHR '';'' \<in> set '','' \<or> (\<exists>x \<in> set L. CHR '';'' \<in> set x)"
      by (rule py_join_chars)
    then show ?thesis
      using assms by auto
  qed
qed

lemma dep_field_plain:
  "dep_field dep \<noteq> []" "\<not> isspace (last (dep_field dep))" "\<not> isspace (hd (dep_field dep))"
  "CHR '';'' \<notin> set (dep_field dep)" "strip (dep_field dep) = dep_field dep"
proof -
  show "dep_field dep \<noteq> []"
    by (cases dep) (simp_all add: dep_field_def str_int_not_Nil)
  show l: "\<not> isspace (last (dep_field dep))"
  proof (cases dep)
    case None
    then show ?thesis by (simp add: dep_field_def isspace_def)
  next
    case (Some d)
    then show ?thesis by (simp add: dep_field_def str_int_not_space_last)
  qed
  show h: "\<not> isspace (hd (dep_field dep))"
  proof (cases dep)
    case None
    then show ?thesis by (simp add: dep_field_def isspace_def)
  next
    case (Some d)
    then show ?thesis by (simp add: dep_field_def str_int_not_space_hd)
  qed
  show "CHR '';'' \<notin> set (dep_field dep)"
    by (cases dep) (simp_all add: dep_field_def str_int_no_semicolon)
  show "strip (dep_field dep) = dep_field dep"
    using l h \<open>dep_field dep \<noteq> []\<close> by (simp add: strip_plain)
qed

lemma task_line_body:
  assumes "task_line new_id details labels_str status id_dep = Some line"
  shows "line = line_body new_id details labels_str status id_dep @ [CHR 0x0A]"
    and "decimal_digits new_id \<le> max_str_digits"
    and "id_dep = Some d \<Longrightarrow> decimal_digits d \<le> max_str_digits"
  using assms
  by (auto simp: task_line_def line_body_def dep_field_def py_str_def
           split: option.splits if_splits)

lemma strip_line_body:
  "strip (line_body new_id details labels_str status id_dep @ [CHR 0x0A])
     = line_body new_id details labels_str status id_dep"
proof -
  let ?b = "line_body new_id details labels_str status id_dep"
  have n: "?b \<noteq> []"
    by (simp add: line_body_def)
  have h: "hd ?b = hd (str_int new_id)"
    by (simp add: line_body_def str_int_not_Nil)
  have l: "last ?b = last (dep_field id_dep)"
    by (simp add: line_body_def dep_field_plain(1))
  show ?thesis
    by (rule strip_newline) (simp_all add: n h l str_int_not_space_hd dep_field_plain)
qed

lemma split_line_body:
  assumes "CHR '';'' \<notin> set details" and "CHR '';'' \<notin> set labels_str" and "CHR '';'' \<notin> set status"
  shows "py_split CHR '';'' (line_body new_id details labels_str status id_dep)
           = [str_int new_id, details, labels_str, status, dep_field id_dep]"
  using assms
  by (simp add: line_body_def py_split_append py_split_no_sep str_int_no_semicolon dep_field_plain(4))

lemma parse_line_five:
  assumes "strip line \<noteq> []" and "py_split CHR '';'' (strip line) = [a, b, c, d, e]"
  shows "parse_line line =
           (case py_int a of
              None \<Rightarrow> None
            | Some tid \<Rightarrow>
                if isdigit (strip e) then
                  (case py_int (strip e) of
                     None \<Rightarrow> None
                   | Some dd \<Rightarrow>
                       Some (tid, b,
                             (if c \<noteq> ''None''
                              then map strip (filter (\<lambda>label. strip label \<noteq> []) (py_split CHR '','' c))
                              else []),
                             (if strip d \<noteq> [] then strip d else ''suspended''), Some dd))
                else
                  Some (tid, b,
                        (if c \<noteq> ''None''
                         then map strip (filter (\<lambda>label. strip label \<noteq> []) (py_split CHR '','' c))
                         else []),
                        (if strip d \<noteq> [] then strip d else ''suspended''), None))"
  using assms by (simp add: parse_line_def Let_def split: option.splits)

lemma parse_task_line:
  assumes tl: "task_line i details (labels_field L) st dep = Some line"
    and st: "st \<in> set [''started'', ''suspended'', ''completed'', ''cancelled'']"
    and details: "CHR '';'' \<notin> set details"
    and L: "L \<noteq> []" "L \<noteq> [''None'']"
    and labels: "\<forall>l \<in> set L. l \<noteq> [] \<and> strip l = l \<and> CHR '','' \<notin> set l \<and> CHR '';'' \<notin> set l"
  shows "parse_line line
           = Some (i, details, L, st,
                   (case dep of None \<Rightarrow> None | Some d \<Rightarrow> if 0 \<le> d then Some d else None))"
proof -
  have line: "line = line_body i details (labels_field L) st dep @ [CHR 0x0A]"
    and di: "decimal_digits i \<le> max_str_digits"
    using task_line_body [OF tl] by blast+
  have sl: "strip line = line_body i details (labels_field L) st dep"
    unfolding line by (rule strip_line_body)
  have body: "strip line \<noteq> []"
    by (simp add: sl line_body_def)
  have parts: "py_split CHR '';'' (strip line) = [str_int i, details, labels_field L, st, dep_field dep]"
    unfolding sl
    using details labels status_plain(3) [OF st]
    by (intro split_line_body labels_field_no_semicolon) auto
  have lab: "labels_field L \<noteq> ''None''"
    using L labels by (intro labels_field_not_None) auto
  have labs: "map strip (filter (\<lambda>label. strip label \<noteq> []) (py_split CHR '','' (labels_field L))) = L"
    using L(1) labels by (intro labels_field_split) auto
  have status: "strip st = st" "st \<noteq> []"
    using status_plain [OF st] by simp_all
  have sd: "strip (dep_field dep) = dep_field dep"
    by (rule dep_field_plain(5))
  have pi: "py_int (str_int i) = Some i"
    using di by (rule py_int_str_int)
  show ?thesis
  proof (cases dep)
    case None
    have "\<not> isdigit ''None''"
      by (simp add: isdigit_def char_isdigit_def is_decimal_def)
    then have "\<not> isdigit (dep_field dep)"
      using None by (simp add: dep_field_def)
    then show ?thesis
      unfolding parse_line_five [OF body parts] sd
      using None lab labs status by (simp add: pi split: option.splits)
  next
    case (Some d)
    have f: "dep_field dep = str_int d"
      using Some by (simp add: dep_field_def)
    have pd: "py_int (str_int d) = Some d"
      using task_line_body(3) [OF tl Some] by (rule py_int_str_int)
    show ?thesis
      unfolding parse_line_five [OF body parts] sd f
      using Some lab labs status
      by (simp add: pi pd isdigit_str_int strip_str_int split: option.splits)
  qed
qed

section \<open>The parser\<close>

text \<open>
  C6. The parser is a total function and keeps the order of the lines, but it does not drop
  exactly the blank lines, the lines with fewer than two fields and the lines whose first
  field is no integer. When the fifth field passes \<^verbatim>\<open>isdigit()\<close> and \<^verbatim>\<open>int\<close> still
  rejects it (a superscript digit), the \<^verbatim>\<open>ValueError\<close> reaches the handler meant for the
  id and the line is dropped, although its first field is the integer 1.
\<close>

theorem parse_drops_line_with_valid_id:
  "py_int ''1'' = Some 1 \<and> parse_tasks [''1;a;None;x;'' @ [CHR 0xB2]] = []"
  by code_simp

text \<open>
  C9. A line that, once stripped, has exactly two fields separated by \<^verbatim>\<open>;\<close>, the first of
  which \<^verbatim>\<open>int\<close> accepts, parses to the record with that id, the second field as
  description, no label, status \<^verbatim>\<open>suspended\<close> and no dependency: alone, and at its place
  among the records of the lines before it and after it, whatever these lines are.
\<close>

theorem parse_two_fields:
  assumes "py_split CHR '';'' (strip line) = [a, b]" and "py_int a = Some n"
  shows "parse_tasks [line] = [(n, b, [], ''suspended'', None)]
       \<and> parse_tasks (before @ line # after)
           = parse_tasks before @ (n, b, [], ''suspended'', None) # parse_tasks after"
proof -
  have "strip line \<noteq> []"
    using assms(1) by auto
  then have one: "parse_line line = Some (n, b, [], ''suspended'', None)"
    using assms by (simp add: parse_line_def)
  have "parse_tasks (before @ line # after) = parse_tasks before @ parse_tasks (line # after)"
    by (rule parse_tasks_append)
  then show ?thesis
    using one by simp
qed

text \<open>
  The line \<^verbatim>\<open>5;Legacy task\<close> of the specification is such a line, here alone and between
  a blank line and another record.
\<close>

theorem parse_two_fields_witness:
  "py_split CHR '';'' (strip ''5;Legacy task'') = [''5'', ''Legacy task'']
   \<and> py_int ''5'' = Some 5
   \<and> parse_tasks [''5;Legacy task''] = [(5, ''Legacy task'', [], ''suspended'', None)]
   \<and> parse_tasks [[], ''5;Legacy task'', ''7;Next;None;started;5'']
       = [(5, ''Legacy task'', [], ''suspended'', None), (7, ''Next'', [], ''started'', Some 5)]"
proof -
  have h1: "py_split CHR '';'' (strip ''5;Legacy task'') = [''5'', ''Legacy task'']"
    by code_simp
  have h2: "py_int ''5'' = Some 5"
    by code_simp
  have b: "parse_tasks [[]] = []"
    by code_simp
  have a: "parse_tasks [''7;Next;None;started;5''] = [(7, ''Next'', [], ''started'', Some 5)]"
    by code_simp
  have "parse_tasks [''5;Legacy task''] = [(5, ''Legacy task'', [], ''suspended'', None)]
       \<and> parse_tasks ([[]] @ ''5;Legacy task'' # [''7;Next;None;started;5''])
           = parse_tasks [[]] @ (5, ''Legacy task'', [], ''suspended'', None)
               # parse_tasks [''7;Next;None;started;5'']"
    by (rule parse_two_fields [OF h1 h2])
  then have "parse_tasks [''5;Legacy task''] = [(5, ''Legacy task'', [], ''suspended'', None)]
       \<and> parse_tasks [[], ''5;Legacy task'', ''7;Next;None;started;5'']
           = [(5, ''Legacy task'', [], ''suspended'', None), (7, ''Next'', [], ''started'', Some 5)]"
    unfolding a b by simp
  then show ?thesis
    using h1 h2 by simp
qed

section \<open>Removing a record\<close>

text \<open>
  C1. \<^verbatim>\<open>rm\<close> removes the record, and a remaining record that depended on it should come
  back with no dependency. The function builds that list (\<^verbatim>\<open>final_tasks\<close>) and returns
  the other one (\<^verbatim>\<open>filtered_tasks\<close>): on the example of its own documentation, record 2
  still depends on the removed record 1.
\<close>

theorem rm_keeps_dependency_on_removed:
  "rm [''1;A;None;completed;None'', ''2;B;None;suspended;1''] (IdStr ''1'')
     = Inr (True, [(2, ''B'', [], ''suspended'', Some 1)], Some (1, ''A'', [], ''completed'', None))"
  by code_simp

section \<open>An id that no record has\<close>

text \<open>
  C4. An operation given an integer id that no record has should return its not-found
  tuple. \<^verbatim>\<open>modify\<close>, \<^verbatim>\<open>add_options\<close> and \<^verbatim>\<open>rm\<close> do; \<^verbatim>\<open>rmLabel\<close>,
  \<^verbatim>\<open>clearLabel\<close> and \<^verbatim>\<open>rmDep\<close> never bind \<^verbatim>\<open>old_task\<close> on that path and raise
  \<^verbatim>\<open>UnboundLocalError\<close> at their return statement.
\<close>

theorem absent_id_raises:
  "rmLabel [''1;a;None;suspended;None''] (IdStr ''2'') [] = Inl UnboundLocalError
   \<and> clearLabel [''1;a;None;suspended;None''] (IdStr ''2'') = Inl UnboundLocalError
   \<and> rmDep [''1;a;None;suspended;None''] (IdStr ''2'') = Inl UnboundLocalError"
  by code_simp

section \<open>Changing the status of a record with a dependency\<close>

text \<open>
  C7. \<^verbatim>\<open>modify\<close> with the requested status \<^verbatim>\<open>started\<close>, on a record that has a
  dependency \<open>d\<close>, reports found, changes the description when one is given, returns the
  former record, and stores a status \<open>state'\<close>. The loop over the parsed records stops at the
  first record with id \<open>d\<close>: if there is one and its status is not \<^verbatim>\<open>completed\<close>, the
  record keeps its status; if its status is \<^verbatim>\<open>completed\<close>, or no record has id \<open>d\<close>,
  the record becomes \<^verbatim>\<open>started\<close>. When the ids of the parsed records are distinct, the
  first record with id \<open>d\<close> is the only one, and the same holds of any record with id \<open>d\<close>.
\<close>

theorem modify_started_with_dependency:
  assumes "to_int tid0 = Some k"
    and "index_of k (parse_tasks tasks) = Some i"
    and "parse_tasks tasks ! i = (tid, desc, lab, state, Some d)"
  shows "\<exists>state'.
           modify tasks tid0 nd (Some ''started'') =
             Inr (True,
                  (parse_tasks tasks)[i := (tid, (case nd of None \<Rightarrow> desc | Some x \<Rightarrow> x), lab, state', Some d)],
                  Some (tid, desc, lab, state, Some d))
         \<and> (\<forall>p. find (\<lambda>t. task_id t = d) (parse_tasks tasks) = Some p \<and> task_status p \<noteq> ''completed''
                \<longrightarrow> state' = state)
         \<and> (\<forall>p. find (\<lambda>t. task_id t = d) (parse_tasks tasks) = Some p \<and> task_status p = ''completed''
                \<longrightarrow> state' = ''started'')
         \<and> (d \<notin> task_id ` set (parse_tasks tasks) \<longrightarrow> state' = ''started'')
         \<and> (distinct (map task_id (parse_tasks tasks)) \<longrightarrow>
               (\<forall>p \<in> set (parse_tasks tasks). task_id p = d \<and> task_status p \<noteq> ''completed''
                   \<longrightarrow> state' = state)
             \<and> (\<forall>p \<in> set (parse_tasks tasks). task_id p = d \<and> task_status p = ''completed''
                   \<longrightarrow> state' = ''started''))"
proof -
  let ?parsed = "parse_tasks tasks"
  let ?s = "modify_state ?parsed state (Some d) (Some ''started'')"
  have m: "modify tasks tid0 nd (Some ''started'') =
             Inr (True,
                  ?parsed[i := (tid, (case nd of None \<Rightarrow> desc | Some x \<Rightarrow> x), lab, ?s, Some d)],
                  Some (tid, desc, lab, state, Some d))"
    by (rule modify_found [OF assms])
  have a: "?s = state"
    if "find (\<lambda>t. task_id t = d) ?parsed = Some p" and "task_status p \<noteq> ''completed''" for p
    using that by (simp add: modify_state_def find_parent_find)
  have b: "?s = ''started''"
    if "find (\<lambda>t. task_id t = d) ?parsed = Some p" and "task_status p = ''completed''" for p
    using that by (simp add: modify_state_def find_parent_find)
  have c: "?s = ''started''" if "d \<notin> task_id ` set ?parsed"
    using that by (simp add: modify_state_def find_parent_find find_None_task_id [symmetric])
  have a': "?s = state"
    if "distinct (map task_id ?parsed)" and "p \<in> set ?parsed" and "task_id p = d"
      and "task_status p \<noteq> ''completed''" for p
    using a [OF find_unique_id [OF that(1-3)] that(4)] .
  have b': "?s = ''started''"
    if "distinct (map task_id ?parsed)" and "p \<in> set ?parsed" and "task_id p = d"
      and "task_status p = ''completed''" for p
    using b [OF find_unique_id [OF that(1-3)] that(4)] .
  show ?thesis
    using m a b c a' b' by (intro exI [of _ ?s]) blast
qed

text \<open>One call for each of the three cases.\<close>

theorem modify_started_with_dependency_witness:
  "modify [''1;A;None;suspended;None'', ''2;B;None;suspended;1''] (IdStr ''2'') None (Some ''started'')
     = Inr (True, [(1, ''A'', [], ''suspended'', None), (2, ''B'', [], ''suspended'', Some 1)],
            Some (2, ''B'', [], ''suspended'', Some 1))
   \<and> modify [''1;A;None;completed;None'', ''2;B;None;suspended;1''] (IdStr ''2'') None (Some ''started'')
     = Inr (True, [(1, ''A'', [], ''completed'', None), (2, ''B'', [], ''started'', Some 1)],
            Some (2, ''B'', [], ''suspended'', Some 1))
   \<and> modify [''2;B;None;suspended;1''] (IdStr ''2'') None (Some ''started'')
     = Inr (True, [(2, ''B'', [], ''started'', Some 1)], Some (2, ''B'', [], ''suspended'', Some 1))"
proof -
  let ?T1 = "[''1;A;None;suspended;None'', ''2;B;None;suspended;1'']"
  let ?T2 = "[''1;A;None;completed;None'', ''2;B;None;suspended;1'']"
  let ?T3 = "[''2;B;None;suspended;1'']"
  have k: "to_int (IdStr ''2'') = Some 2"
    by code_simp
  have p1: "parse_tasks ?T1 = [(1, ''A'', [], ''suspended'', None), (2, ''B'', [], ''suspended'', Some 1)]"
    by code_simp
  have p2: "parse_tasks ?T2 = [(1, ''A'', [], ''completed'', None), (2, ''B'', [], ''suspended'', Some 1)]"
    by code_simp
  have p3: "parse_tasks ?T3 = [(2, ''B'', [], ''suspended'', Some 1)]"
    by code_simp
  have i1: "index_of 2 (parse_tasks ?T1) = Some 1" and r1: "parse_tasks ?T1 ! 1 = (2, ''B'', [], ''suspended'', Some 1)"
    and f1: "find (\<lambda>t. task_id t = 1) (parse_tasks ?T1) = Some (1, ''A'', [], ''suspended'', None)
               \<and> task_status (1, ''A'', [], ''suspended'', None) \<noteq> ''completed''"
    unfolding p1 by (simp_all add: task_id_def task_status_def)
  have i2: "index_of 2 (parse_tasks ?T2) = Some 1" and r2: "parse_tasks ?T2 ! 1 = (2, ''B'', [], ''suspended'', Some 1)"
    and f2: "find (\<lambda>t. task_id t = 1) (parse_tasks ?T2) = Some (1, ''A'', [], ''completed'', None)
               \<and> task_status (1, ''A'', [], ''completed'', None) = ''completed''"
    unfolding p2 by (simp_all add: task_id_def task_status_def)
  have i3: "index_of 2 (parse_tasks ?T3) = Some 0" and r3: "parse_tasks ?T3 ! 0 = (2, ''B'', [], ''suspended'', Some 1)"
    and f3: "1 \<notin> task_id ` set (parse_tasks ?T3)"
    unfolding p3 by (simp_all add: task_id_def)
  have a: "modify ?T1 (IdStr ''2'') None (Some ''started'')
             = Inr (True, (parse_tasks ?T1)[1 := (2, ''B'', [], ''suspended'', Some 1)],
                    Some (2, ''B'', [], ''suspended'', Some 1))"
    using modify_started_with_dependency [OF k i1 r1, of None] f1 by auto
  have b: "modify ?T2 (IdStr ''2'') None (Some ''started'')
             = Inr (True, (parse_tasks ?T2)[1 := (2, ''B'', [], ''started'', Some 1)],
                    Some (2, ''B'', [], ''suspended'', Some 1))"
    using modify_started_with_dependency [OF k i2 r2, of None] f2 by auto
  have c: "modify ?T3 (IdStr ''2'') None (Some ''started'')
             = Inr (True, (parse_tasks ?T3)[0 := (2, ''B'', [], ''started'', Some 1)],
                    Some (2, ''B'', [], ''suspended'', Some 1))"
    using modify_started_with_dependency [OF k i3 r3, of None] f3 by auto
  show ?thesis
    unfolding a b c unfolding p1 p2 p3 by simp
qed

text \<open>
  C2. The claim that \<^verbatim>\<open>modify\<close> refuses both \<^verbatim>\<open>started\<close> and \<^verbatim>\<open>completed\<close>
  while the dependency is not completed fails for \<^verbatim>\<open>completed\<close>: the test on the
  dependency is under \<^verbatim>\<open>new_status == "started"\<close> only. Record 2 depends on the
  suspended record 1 and becomes \<^verbatim>\<open>completed\<close>.
\<close>

theorem modify_completed_not_gated:
  "modify [''1;A;None;suspended;None'', ''2;B;None;suspended;1''] (IdStr ''2'') None (Some ''completed'')
     = Inr (True, [(1, ''A'', [], ''suspended'', None), (2, ''B'', [], ''completed'', Some 1)],
            Some (2, ''B'', [], ''suspended'', Some 1))"
  by code_simp

text \<open>
  C2, as the program works: for a record with a dependency whose target (the first record
  with that id) has a status other than \<^verbatim>\<open>completed\<close>, \<^verbatim>\<open>modify\<close> refuses
  \<^verbatim>\<open>started\<close> and the stored status is unchanged, and it applies \<^verbatim>\<open>completed\<close>.
\<close>

theorem modify_gate_started_only:
  assumes "to_int tid0 = Some k"
    and "index_of k (parse_tasks tasks) = Some i"
    and "parse_tasks tasks ! i = (tid, desc, lab, state, Some d)"
    and "find (\<lambda>t. task_id t = d) (parse_tasks tasks) = Some p"
    and "task_status p \<noteq> ''completed''"
  shows "(\<exists>ts. modify tasks tid0 nd (Some ''started'') = Inr (True, ts, Some (tid, desc, lab, state, Some d))
              \<and> task_status (ts ! i) = state)
       \<and> (\<exists>ts. modify tasks tid0 nd (Some ''completed'') = Inr (True, ts, Some (tid, desc, lab, state, Some d))
              \<and> task_status (ts ! i) = ''completed'')"
proof -
  have i: "i < length (parse_tasks tasks)"
    using index_of_SomeD [OF assms(2)] by simp
  show ?thesis
    using modify_found [OF assms(1-3), of nd "Some ''started''"]
          modify_found [OF assms(1-3), of nd "Some ''completed''"] assms(4,5) i
    by (simp add: modify_state_def find_parent_find task_status_def)
qed


theorem modify_gate_started_only_witness:
  "(\<exists>ts. modify [''1;A;None;suspended;None'', ''2;B;None;suspended;1''] (IdStr ''2'') None (Some ''started'')
            = Inr (True, ts, Some (2, ''B'', [], ''suspended'', Some 1))
          \<and> task_status (ts ! 1) = ''suspended'')
   \<and> (\<exists>ts. modify [''1;A;None;suspended;None'', ''2;B;None;suspended;1''] (IdStr ''2'') None (Some ''completed'')
            = Inr (True, ts, Some (2, ''B'', [], ''suspended'', Some 1))
          \<and> task_status (ts ! 1) = ''completed'')"
proof -
  let ?T = "[''1;A;None;suspended;None'', ''2;B;None;suspended;1'']"
  have k: "to_int (IdStr ''2'') = Some 2"
    by code_simp
  have p: "parse_tasks ?T = [(1, ''A'', [], ''suspended'', None), (2, ''B'', [], ''suspended'', Some 1)]"
    by code_simp
  have i: "index_of 2 (parse_tasks ?T) = Some 1"
    and r: "parse_tasks ?T ! 1 = (2, ''B'', [], ''suspended'', Some 1)"
    and f: "find (\<lambda>t. task_id t = 1) (parse_tasks ?T) = Some (1, ''A'', [], ''suspended'', None)"
    and s: "task_status (1, ''A'', [], ''suspended'', None) \<noteq> ''completed''"
    unfolding p by (simp_all add: task_id_def task_status_def)
  show ?thesis
    by (rule modify_gate_started_only [OF k i r f s])
qed

section \<open>The records an operation leaves alone\<close>

text \<open>
  C10. When \<^verbatim>\<open>modify\<close>, \<^verbatim>\<open>add_options\<close>, \<^verbatim>\<open>rmLabel\<close>, \<^verbatim>\<open>clearLabel\<close> or
  \<^verbatim>\<open>rmDep\<close> reports found for the id \<open>k\<close>, the returned list has the length of the
  parsed list, and at every position a returned record whose id is not \<open>k\<close> is the parsed
  record of that position.
\<close>

theorem mutation_frame:
  assumes "to_int tid0 = Some k"
    and "r \<in> {modify tasks tid0 nd ns, add_options tasks tid0 labels id_dep ins,
               rmLabel tasks tid0 ins', clearLabel tasks tid0, rmDep tasks tid0}"
    and "r = Inr (True, ts, old)"
  shows "length ts = length (parse_tasks tasks)
         \<and> (\<forall>j < length ts. task_id (ts ! j) \<noteq> k \<longrightarrow> ts ! j = parse_tasks tasks ! j)"
proof -
  have "\<exists>i t'. index_of k (parse_tasks tasks) = Some i \<and> ts = (parse_tasks tasks)[i := t'] \<and> fst t' = k"
    using assms(2,3)
          modify_updates_first [OF assms(1)] add_options_updates_first [OF assms(1)]
          rmLabel_updates_first [OF assms(1)] clearLabel_updates_first [OF assms(1)]
          rmDep_updates_first [OF assms(1)]
    by (elim insertE emptyE) simp_all
  then show ?thesis
    using update_first_frame by blast
qed

theorem mutation_frame_witness:
  "to_int (IdStr ''2'') = Some 2
   \<and> clearLabel [''1;T;x;suspended;None'', ''2;U;tag1,tag2;started;None''] (IdStr ''2'')
       = Inr (True, [(1, ''T'', [''x''], ''suspended'', None), (2, ''U'', [], ''started'', None)],
              Some (2, ''U'', [''tag1'', ''tag2''], ''started'', None))
   \<and> length ([(1, ''T'', [''x''], ''suspended'', None), (2, ''U'', [], ''started'', None)] :: task list)
       = length (parse_tasks [''1;T;x;suspended;None'', ''2;U;tag1,tag2;started;None''])
   \<and> task_id ([(1, ''T'', [''x''], ''suspended'', None), (2, ''U'', [], ''started'', None)] ! 0) \<noteq> 2
   \<and> [(1, ''T'', [''x''], ''suspended'', None), (2, ''U'', [], ''started'', None)] ! 0
       = parse_tasks [''1;T;x;suspended;None'', ''2;U;tag1,tag2;started;None''] ! 0"
proof -
  let ?T = "[''1;T;x;suspended;None'', ''2;U;tag1,tag2;started;None'']"
  let ?ts = "[(1, ''T'', [''x''], ''suspended'', None), (2, ''U'', [], ''started'', None)] :: task list"
  have k: "to_int (IdStr ''2'') = Some 2"
    by code_simp
  have c: "clearLabel ?T (IdStr ''2'') = Inr (True, ?ts, Some (2, ''U'', [''tag1'', ''tag2''], ''started'', None))"
    by code_simp
  have m: "clearLabel ?T (IdStr ''2'')
             \<in> {modify ?T (IdStr ''2'') None None, add_options ?T (IdStr ''2'') None None [],
                 rmLabel ?T (IdStr ''2'') [], clearLabel ?T (IdStr ''2''), rmDep ?T (IdStr ''2'')}"
    by simp
  have n: "task_id (?ts ! 0) \<noteq> 2"
    by (simp add: task_id_def)
  have "length ?ts = length (parse_tasks ?T)
        \<and> (\<forall>j < length ?ts. task_id (?ts ! j) \<noteq> 2 \<longrightarrow> ?ts ! j = parse_tasks ?T ! j)"
    by (rule mutation_frame [OF k m c])
  then have "length ?ts = length (parse_tasks ?T) \<and> ?ts ! 0 = parse_tasks ?T ! 0"
    using n by auto
  then show ?thesis
    using k c n by simp
qed

section \<open>The id of a new record\<close>

text \<open>
  C3. The claim that an id, once assigned and removed, is never assigned again fails:
  \<^verbatim>\<open>add\<close> computes the id from the records present and keeps no trace of a removed one.
  Two records are added (ids 1 and 2), record 2 is removed, and the next \<^verbatim>\<open>add\<close> on the
  remaining line assigns 2 again.
\<close>

theorem add_reuses_removed_id:
  "add [] ''a'' None ''suspended'' [] = Inr (Some (1, ''a'', [], ''1;a;None;suspended;None'' @ [CHR 0x0A]))
   \<and> add [''1;a;None;suspended;None'' @ [CHR 0x0A]] ''b'' None ''suspended'' [Typed ''n'']
       = Inr (Some (2, ''b'', [], ''2;b;None;suspended;None'' @ [CHR 0x0A]))
   \<and> rm [''1;a;None;suspended;None'' @ [CHR 0x0A], ''2;b;None;suspended;None'' @ [CHR 0x0A]] (IdInt 2)
       = Inr (True, [(1, ''a'', [], ''suspended'', None)], Some (2, ''b'', [], ''suspended'', None))
   \<and> parse_tasks [''1;a;None;suspended;None'' @ [CHR 0x0A]] = [(1, ''a'', [], ''suspended'', None)]
   \<and> add [''1;a;None;suspended;None'' @ [CHR 0x0A]] ''c'' None ''suspended'' [Typed ''n'']
       = Inr (Some (2, ''c'', [], ''2;c;None;suspended;None'' @ [CHR 0x0A]))"
  by code_simp

text \<open>
  C3, as the program works: \<^verbatim>\<open>add\<close> assigns 1 when no record is parsed and the greatest
  id plus one otherwise, so the new id is greater than the id of every record present. After
  \<^verbatim>\<open>rm\<close> has removed the id \<open>k\<close>, an \<^verbatim>\<open>add\<close> on the remaining records does not
  assign \<open>k\<close> again when a remaining record has an id greater than \<open>k\<close>.
\<close>

theorem add_assigns_next_id:
  assumes "add tasks details labels status ins = Inr (Some (new_id, d, ls, line))"
  shows "new_id = (if parse_tasks tasks = [] then 1 else Max (task_id ` set (parse_tasks tasks)) + 1)
         \<and> (\<forall>t \<in> set (parse_tasks tasks). task_id t < new_id)
         \<and> (\<forall>tasks0 tid0 k old.
               to_int tid0 = Some k
               \<and> rm tasks0 tid0 = Inr (True, parse_tasks tasks, old)
               \<and> (\<exists>t \<in> set (parse_tasks tasks). k < task_id t)
               \<longrightarrow> new_id \<noteq> k)"
proof -
  have rule: "new_id = (if parse_tasks tasks = [] then 1 else Max (task_id ` set (parse_tasks tasks)) + 1)"
    using add_new_id [OF assms] max_id_Max by simp
  have greater: "task_id t < new_id" if "t \<in> set (parse_tasks tasks)" for t
  proof -
    have ne: "parse_tasks tasks \<noteq> []"
      using that by auto
    have "task_id t \<le> Max (task_id ` set (parse_tasks tasks))"
      using that by simp
    then show ?thesis
      using rule ne by simp
  qed
  have fresh: "new_id \<noteq> k" if "t \<in> set (parse_tasks tasks)" and "k < task_id t" for t k
    using greater [OF that(1)] that(2) by simp
  show ?thesis
    using rule greater fresh by blast
qed

theorem add_assigns_next_id_witness:
  "add [''3;x;None;completed;None'', ''1;y''] ''c'' None ''suspended'' [Typed ''n'']
     = Inr (Some (4, ''c'', [], ''4;c;None;suspended;None'' @ [CHR 0x0A]))
   \<and> parse_tasks [''3;x;None;completed;None'', ''1;y'']
       = [(3, ''x'', [], ''completed'', None), (1, ''y'', [], ''suspended'', None)]
   \<and> rm [''3;x;None;completed;None'', ''2;z'', ''1;y''] (IdInt 2)
       = Inr (True, [(3, ''x'', [], ''completed'', None), (1, ''y'', [], ''suspended'', None)],
              Some (2, ''z'', [], ''suspended'', None))
   \<and> (4::int) = Max (task_id ` {(3, ''x'', [], ''completed'', None), (1, ''y'', [], ''suspended'', None)}) + 1
   \<and> task_id (3, ''x'', [], ''completed'', None) < 4
   \<and> task_id (1, ''y'', [], ''suspended'', None) < 4
   \<and> (4::int) \<noteq> 2"
proof -
  let ?T = "[''3;x;None;completed;None'', ''1;y'']"
  let ?B = "[''3;x;None;completed;None'', ''2;z'', ''1;y'']"
  let ?x = "(3, ''x'', [], ''completed'', None) :: task"
  let ?y = "(1, ''y'', [], ''suspended'', None) :: task"
  have a: "add ?T ''c'' None ''suspended'' [Typed ''n'']
             = Inr (Some (4, ''c'', [], ''4;c;None;suspended;None'' @ [CHR 0x0A]))"
    by code_simp
  have p: "parse_tasks ?T = [?x, ?y]"
    by code_simp
  have r: "rm ?B (IdInt 2) = Inr (True, [?x, ?y], Some (2, ''z'', [], ''suspended'', None))"
    by code_simp
  have all: "4 = (if parse_tasks ?T = [] then 1 else Max (task_id ` set (parse_tasks ?T)) + 1)
         \<and> (\<forall>t \<in> set (parse_tasks ?T). task_id t < 4)
         \<and> (\<forall>tasks0 tid0 k old.
               to_int tid0 = Some k
               \<and> rm tasks0 tid0 = Inr (True, parse_tasks ?T, old)
               \<and> (\<exists>t \<in> set (parse_tasks ?T). k < task_id t)
               \<longrightarrow> 4 \<noteq> k)"
    by (rule add_assigns_next_id [OF a])
  have first: "(4::int) = Max (task_id ` {?x, ?y}) + 1 \<and> task_id ?x < 4 \<and> task_id ?y < 4"
    using all unfolding p by simp
  have hyp: "to_int (IdInt 2) = Some 2
        \<and> rm ?B (IdInt 2) = Inr (True, parse_tasks ?T, Some (2, ''z'', [], ''suspended'', None))
        \<and> (\<exists>t \<in> set (parse_tasks ?T). 2 < task_id t)"
    unfolding p using r by (simp add: task_id_def)
  have "(4::int) \<noteq> 2"
    using all hyp by blast
  then show ?thesis
    using a p r first by simp
qed

section \<open>The labels of a record\<close>

text \<open>
  C5. The claim that no label list ever holds an empty string or two equal entries fails on
  both counts. The parser keeps equal entries of the label field of a line,
  \<^verbatim>\<open>add_options\<close> appends an empty string when it is given one, and \<^verbatim>\<open>add\<close> returns
  the labels it is given as they are.
\<close>

theorem parser_keeps_equal_labels:
  "parse_tasks [''1;a;x,x''] = [(1, ''a'', [''x'', ''x''], ''suspended'', None)]
   \<and> add_options [''1;a''] (IdInt 1) (Some [[]]) None []
       = Inr (True, [(1, ''a'', [[]], ''suspended'', None)], Some (1, ''a'', [], ''suspended'', None))
   \<and> add [] ''t'' (Some [''x'', ''x'', []]) ''suspended'' []
       = Inr (Some (1, ''t'', [''x'', ''x'', []], ''1;t;x,x,;suspended;None'' @ [CHR 0x0A]))"
  by code_simp

text \<open>
  C5, as the program works: the parser never yields an empty label. For \<^verbatim>\<open>modify\<close>,
  \<^verbatim>\<open>rm\<close>, \<^verbatim>\<open>add_options\<close>, \<^verbatim>\<open>rmLabel\<close>, \<^verbatim>\<open>clearLabel\<close> and
  \<^verbatim>\<open>rmDep\<close>: when the label lists of the parsed records have no equal entries, neither
  have those of the returned records; and when the labels given to \<^verbatim>\<open>add_options\<close>
  hold no empty string, no returned label list holds one. \<^verbatim>\<open>add\<close> returns the label
  list it is given (the empty list when it is given none), so its list has no empty string
  and no equal entries exactly when the given one has none.
\<close>

theorem labels_after_operations:
  assumes "r \<in> {modify tasks tid0 nd ns, rm tasks tid0, add_options tasks tid0 labels id_dep ins,
                 rmLabel tasks tid0 ins', clearLabel tasks tid0, rmDep tasks tid0}"
    and "r = Inr (found, ts, old)"
  shows "(\<forall>t \<in> set (parse_tasks tasks). [] \<notin> set (task_labels t))
       \<and> ((\<forall>t \<in> set (parse_tasks tasks). distinct (task_labels t))
            \<longrightarrow> (\<forall>t \<in> set ts. distinct (task_labels t)))
       \<and> ((\<forall>ls. labels = Some ls \<longrightarrow> [] \<notin> set ls)
            \<longrightarrow> (\<forall>t \<in> set ts. [] \<notin> set (task_labels t)))
       \<and> (\<forall>new_id d ls line.
             add tasks details given status ains = Inr (Some (new_id, d, ls, line))
             \<longrightarrow> ls = (case given of None \<Rightarrow> [] | Some l \<Rightarrow> l))"
proof -
  have a: "\<forall>t \<in> set (parse_tasks tasks). [] \<notin> set (task_labels t)"
    using parse_tasks_labels by blast
  have b: "\<forall>t \<in> set ts. distinct (task_labels t)"
    if "\<forall>t \<in> set (parse_tasks tasks). distinct (task_labels t)"
    using distinct_kept [OF assms] that by blast
  have c: "\<forall>t \<in> set ts. [] \<notin> set (task_labels t)"
    if "\<forall>ls. labels = Some ls \<longrightarrow> [] \<notin> set ls"
    using nonempty_kept [OF assms] that by blast
  have d: "ls = (case given of None \<Rightarrow> [] | Some l \<Rightarrow> l)"
    if "add tasks details given status ains = Inr (Some (new_id, d, ls, line))" for new_id d ls line
    using add_result [OF that] by blast
  show ?thesis
    using a b c d by blast
qed

theorem labels_after_operations_witness:
  "add_options [''1;T;a,b;suspended;None''] (IdInt 1) (Some [''b'', ''c'']) None []
     = Inr (True, [(1, ''T'', [''a'', ''b'', ''c''], ''suspended'', None)],
            Some (1, ''T'', [''a'', ''b''], ''suspended'', None))
   \<and> parse_tasks [''1;T;a,b;suspended;None''] = [(1, ''T'', [''a'', ''b''], ''suspended'', None)]
   \<and> [] \<notin> set (task_labels (1, ''T'', [''a'', ''b''], ''suspended'', None))
   \<and> distinct (task_labels (1, ''T'', [''a'', ''b'', ''c''], ''suspended'', None))
   \<and> [] \<notin> set (task_labels (1, ''T'', [''a'', ''b'', ''c''], ''suspended'', None))
   \<and> add [''1;T;a,b;suspended;None''] ''U'' (Some [''b'', ''c'']) ''suspended'' [Typed ''n'']
       = Inr (Some (2, ''U'', [''b'', ''c''], ''2;U;b,c;suspended;None'' @ [CHR 0x0A]))"
proof -
  let ?T = "[''1;T;a,b;suspended;None'']"
  let ?old = "(1, ''T'', [''a'', ''b''], ''suspended'', None) :: task"
  let ?new = "(1, ''T'', [''a'', ''b'', ''c''], ''suspended'', None) :: task"
  have c: "add_options ?T (IdInt 1) (Some [''b'', ''c'']) None [] = Inr (True, [?new], Some ?old)"
    by code_simp
  have p: "parse_tasks ?T = [?old]"
    by code_simp
  have ad: "add ?T ''U'' (Some [''b'', ''c'']) ''suspended'' [Typed ''n'']
              = Inr (Some (2, ''U'', [''b'', ''c''], ''2;U;b,c;suspended;None'' @ [CHR 0x0A]))"
    by code_simp
  have m: "add_options ?T (IdInt 1) (Some [''b'', ''c'']) None []
             \<in> {modify ?T (IdInt 1) None None, rm ?T (IdInt 1),
                 add_options ?T (IdInt 1) (Some [''b'', ''c'']) None [],
                 rmLabel ?T (IdInt 1) [], clearLabel ?T (IdInt 1), rmDep ?T (IdInt 1)}"
    by simp
  have all: "(\<forall>t \<in> set (parse_tasks ?T). [] \<notin> set (task_labels t))
       \<and> ((\<forall>t \<in> set (parse_tasks ?T). distinct (task_labels t))
            \<longrightarrow> (\<forall>t \<in> set [?new]. distinct (task_labels t)))
       \<and> ((\<forall>ls. Some [''b'', ''c''] = Some ls \<longrightarrow> [] \<notin> set ls)
            \<longrightarrow> (\<forall>t \<in> set [?new]. [] \<notin> set (task_labels t)))
       \<and> (\<forall>new_id d ls line.
             add ?T ''U'' (Some [''b'', ''c'']) ''suspended'' [Typed ''n'']
               = Inr (Some (new_id, d, ls, line))
             \<longrightarrow> ls = (case Some [''b'', ''c''] of None \<Rightarrow> [] | Some l \<Rightarrow> l))"
    by (rule labels_after_operations [OF m c])
  have "[] \<notin> set (task_labels ?old) \<and> distinct (task_labels ?new) \<and> [] \<notin> set (task_labels ?new)"
    using all unfolding p by (simp add: task_labels_def)
  then show ?thesis
    using c p ad by simp
qed

section \<open>Labels through the file\<close>

text \<open>
  C8. The claim that every non-empty list of distinct non-empty labels comes back from the
  line \<^verbatim>\<open>add\<close> writes fails: the label field is the labels joined by commas, with no
  escaping, so the single label \<^verbatim>\<open>a,b\<close> is read back as two labels.
\<close>

theorem add_labels_not_round_trip:
  "add [] ''t'' (Some [''a,b'']) ''suspended'' []
     = Inr (Some (1, ''t'', [''a,b''], ''1;t;a,b;suspended;None'' @ [CHR 0x0A]))
   \<and> parse_tasks [''1;t;a,b;suspended;None'' @ [CHR 0x0A]]
       = [(1, ''t'', [''a'', ''b''], ''suspended'', None)]"
  by code_simp

text \<open>
  C8, as the program works: for a non-empty list \<open>L\<close> of distinct non-empty labels, none
  of which contains a comma or a semicolon or begins or ends with white space, and which is
  not the single label \<^verbatim>\<open>None\<close>, and for a description without semicolon, the line
  \<^verbatim>\<open>add\<close> returns parses to one record, with the new id, the description and the
  labels \<open>L\<close> in their order.
\<close>

theorem add_labels_round_trip:
  assumes "add tasks details (Some L) status ins = Inr (Some (new_id, d, ls, line))"
    and "L \<noteq> []" and "distinct L"
    and "\<forall>l \<in> set L. l \<noteq> [] \<and> strip l = l \<and> CHR '','' \<notin> set l \<and> CHR '';'' \<notin> set l"
    and "L \<noteq> [''None'']"
    and "CHR '';'' \<notin> set details"
  shows "\<exists>st dep. parse_tasks [line] = [(new_id, details, L, st, dep)]"
proof -
  let ?status = "if status \<notin> set [''started'', ''suspended'', ''completed'', ''cancelled'']
                 then ''suspended'' else status"
  obtain st dep where a: "ask_dependency (parse_tasks tasks) ?status ins = Inr (Some (st, dep))"
    and line: "task_line new_id details (labels_field L) st dep = Some line"
    using add_result [OF assms(1)] by auto
  have v: "?status \<in> set [''started'', ''suspended'', ''completed'', ''cancelled'']"
    by (cases "status \<in> set [''started'', ''suspended'', ''completed'', ''cancelled'']") simp_all
  have "st = ?status \<or> st = ''suspended''"
    using a by (rule ask_dependency_status)
  then have st: "st \<in> set [''started'', ''suspended'', ''completed'', ''cancelled'']"
  proof
    assume "st = ?status"
    then show ?thesis
      using v by (simp only:)
  next
    assume "st = ''suspended''"
    then show ?thesis
      by simp
  qed
  have "parse_line line
          = Some (new_id, details, L, st,
                  (case dep of None \<Rightarrow> None | Some d \<Rightarrow> if 0 \<le> d then Some d else None))"
    using line st assms(6,2,5,4) by (rule parse_task_line)
  then show ?thesis
    by simp
qed

theorem add_labels_round_trip_witness:
  "add [''1;x;None;completed;None''] ''Write report'' (Some [''urgent'', ''home office''])
       ''started'' [Typed ''o'', Typed ''1'']
     = Inr (Some (2, ''Write report'', [''urgent'', ''home office''],
                  ''2;Write report;urgent,home office;started;1'' @ [CHR 0x0A]))
   \<and> parse_tasks [''2;Write report;urgent,home office;started;1'' @ [CHR 0x0A]]
       = [(2, ''Write report'', [''urgent'', ''home office''], ''started'', Some 1)]"
proof -
  let ?L = "[''urgent'', ''home office'']"
  let ?line = "''2;Write report;urgent,home office;started;1'' @ [CHR 0x0A]"
  have a: "add [''1;x;None;completed;None''] ''Write report'' (Some ?L) ''started'' [Typed ''o'', Typed ''1'']
             = Inr (Some (2, ''Write report'', ?L, ?line))"
    by code_simp
  have h: "\<forall>l \<in> set ?L. l \<noteq> [] \<and> strip l = l \<and> CHR '','' \<notin> set l \<and> CHR '';'' \<notin> set l"
    by (simp add: strip_def lstrip_def rstrip_def isspace_def)
  have "\<exists>st dep. parse_tasks [?line] = [(2, ''Write report'', ?L, st, dep)]"
    by (rule add_labels_round_trip [OF a _ _ h]) simp_all
  moreover have "parse_tasks [?line] = [(2, ''Write report'', ?L, ''started'', Some 1)]"
    by code_simp
  ultimately show ?thesis
    using a by simp
qed

end
